theory Spec2Isabelle
  imports Main
begin

section \<open>Strings and numbers of the host language\<close>

text \<open>
  The program is TypeScript/JavaScript. Strings are modelled as \<^typ>\<open>string\<close>: a
  character stands for the code unit of its number, so the strings of the model are those
  whose code units are below 256, and the definitions below follow ECMAScript on them. A
  JavaScript number that results from \<^verbatim>\<open>parseInt\<close> is an integer or NaN: it is
  modelled as \<^typ>\<open>int option\<close>, with \<open>None\<close> for NaN. Every comparison with NaN is
  false and arithmetic on NaN gives NaN. (Beyond \<open>2^53\<close> a JavaScript number is rounded;
  the program only compares these numbers with 0, 12, 23 and 59, which rounding does not
  change.)
\<close>

definition isWhiteSpace :: "char \<Rightarrow> bool" where
  \<comment> \<open>the white space and line terminators below 256, as stripped by \<^verbatim>\<open>trim\<close> and
      \<^verbatim>\<open>parseInt\<close>: TAB, LF, VT, FF, CR, SPACE and NO-BREAK SPACE\<close>
  "isWhiteSpace c \<longleftrightarrow>
     c = CHR 0x09 \<or> c = CHR 0x0A \<or> c = CHR 0x0B \<or> c = CHR 0x0C \<or> c = CHR 0x0D \<or>
     c = CHR '' '' \<or> c = CHR 0xA0"

definition trim :: "string \<Rightarrow> string" where
  "trim s = rev (dropWhile isWhiteSpace (rev (dropWhile isWhiteSpace s)))"

definition toLowerChar :: "char \<Rightarrow> char" where
  \<comment> \<open>the letters A to Z, and the capital letters of Latin-1 (U+00C0 to U+00DE but the
      multiplication sign U+00D7), move 32 up\<close>
  "toLowerChar c =
     (let n = (of_char c :: nat)
      in if (65 \<le> n \<and> n \<le> 90) \<or> (192 \<le> n \<and> n \<le> 214) \<or> (216 \<le> n \<and> n \<le> 222)
         then char_of (n + 32) else c)"

definition toLowerCase :: "string \<Rightarrow> string" where
  "toLowerCase s = map toLowerChar s"

fun startsWith :: "string \<Rightarrow> string \<Rightarrow> bool" where
  "startsWith s [] = True"
| "startsWith [] (p # ps) = False"
| "startsWith (c # cs) (p # ps) = (c = p \<and> startsWith cs ps)"

fun includes_str :: "string \<Rightarrow> string \<Rightarrow> bool" where
  \<comment> \<open>\<^verbatim>\<open>s.includes(sub)\<close>\<close>
  "includes_str [] sub = (sub = [])"
| "includes_str (c # cs) sub = (startsWith (c # cs) sub \<or> includes_str cs sub)"

definition isMeridiem :: "char \<Rightarrow> char \<Rightarrow> bool" where
  \<comment> \<open>one match of the pattern \<^verbatim>\<open>/AM|PM|am|pm/gi\<close>: the flag \<^verbatim>\<open>i\<close> ignores case\<close>
  "isMeridiem a b \<longleftrightarrow>
     (a = CHR ''a'' \<or> a = CHR ''A'' \<or> a = CHR ''p'' \<or> a = CHR ''P'') \<and>
     (b = CHR ''m'' \<or> b = CHR ''M'')"

fun replace_meridiem :: "string \<Rightarrow> string" where
  \<comment> \<open>\<^verbatim>\<open>s.replace(/AM|PM|am|pm/gi, '')\<close>: every match, left to right, is removed\<close>
  "replace_meridiem (a # b # cs) =
     (if isMeridiem a b then replace_meridiem cs else a # replace_meridiem (b # cs))"
| "replace_meridiem cs = cs"

fun split_str :: "char \<Rightarrow> string \<Rightarrow> string list" where
  \<comment> \<open>\<^verbatim>\<open>s.split(d)\<close> for a one-character separator; the result is never empty\<close>
  "split_str d [] = [[]]"
| "split_str d (c # cs) =
     (if c = d then [] # split_str d cs
      else (case split_str d cs of p # ps \<Rightarrow> (c # p) # ps | [] \<Rightarrow> [[c]]))"

definition digitValue :: "char \<Rightarrow> nat option" where
  \<comment> \<open>the value of a digit, for radix up to 16\<close>
  "digitValue c =
     (let n = (of_char c :: nat) in
      if 48 \<le> n \<and> n \<le> 57 then Some (n - 48)
      else if 97 \<le> n \<and> n \<le> 102 then Some (n - 87)
      else if 65 \<le> n \<and> n \<le> 70 then Some (n - 55)
      else None)"

definition isRadixDigit :: "nat \<Rightarrow> char \<Rightarrow> bool" where
  "isRadixDigit R c = (case digitValue c of None \<Rightarrow> False | Some v \<Rightarrow> v < R)"

definition digitsValue :: "nat \<Rightarrow> string \<Rightarrow> int" where
  "digitsValue R Z = foldl (\<lambda>acc c. acc * int R + int (the (digitValue c))) 0 Z"

definition parseInt :: "string \<Rightarrow> int option" where
  \<comment> \<open>\<^verbatim>\<open>parseInt(s)\<close> with no radix: leading white space is skipped, then an optional sign,
      then an optional \<^verbatim>\<open>0x\<close>/\<^verbatim>\<open>0X\<close> prefix (radix 16, else radix 10), then the longest run
      of digits; what follows is ignored. No digit at all gives NaN.\<close>
  "parseInt s =
     (let S = dropWhile isWhiteSpace s;
          sign = (case S of c # cs \<Rightarrow> if c = CHR ''-'' then - 1 else 1 | [] \<Rightarrow> (1::int));
          S1 = (case S of c # cs \<Rightarrow> if c = CHR ''-'' \<or> c = CHR ''+'' then cs else S | [] \<Rightarrow> S);
          hex = (case S1 of a # b # cs \<Rightarrow> a = CHR ''0'' \<and> (b = CHR ''x'' \<or> b = CHR ''X'')
                   | _ \<Rightarrow> False);
          R = (if hex then 16 else 10);
          S2 = (if hex then drop 2 S1 else S1);
          Z = takeWhile (isRadixDigit R) S2
      in if Z = [] then None else Some (sign * digitsValue R Z))"

definition isNaN :: "int option \<Rightarrow> bool" where
  "isNaN x \<longleftrightarrow> x = None"

definition num_lt :: "int option \<Rightarrow> int \<Rightarrow> bool" where
  \<comment> \<open>\<^verbatim>\<open>x < k\<close> on numbers: false when \<open>x\<close> is NaN\<close>
  "num_lt x k = (case x of None \<Rightarrow> False | Some v \<Rightarrow> v < k)"

definition num_gt :: "int option \<Rightarrow> int \<Rightarrow> bool" where
  \<comment> \<open>\<^verbatim>\<open>x > k\<close> on numbers: false when \<open>x\<close> is NaN\<close>
  "num_gt x k = (case x of None \<Rightarrow> False | Some v \<Rightarrow> k < v)"

definition num_le :: "int option \<Rightarrow> int \<Rightarrow> bool" where
  \<comment> \<open>\<^verbatim>\<open>x <= k\<close> on numbers: false when \<open>x\<close> is NaN\<close>
  "num_le x k = (case x of None \<Rightarrow> False | Some v \<Rightarrow> v \<le> k)"

section \<open>Dates\<close>

text \<open>
  A \<^verbatim>\<open>Date\<close> is its time value, the milliseconds since the epoch. The program reads and
  writes the fields of a date in local time. A time zone is the offset from UTC in force at
  first, in milliseconds, and the later changes of the offset (daylight saving time and
  changes of rule), each with the instant from which it holds, in ascending order. The
  functions are those of ECMAScript: \<open>LocalTZA z t True\<close> is the offset in force at the
  instant \<open>t\<close>; \<open>LocalTZA z t False\<close> is the offset with which the local time \<open>t\<close> is
  read, and a local time that a change repeats or skips is read with the offset before the
  change (the changes of a zone lie further apart than the offsets differ). The calls of
  \<^verbatim>\<open>new Date()\<close> within one run of the parser are taken to read the same instant
  \<open>now\<close>.
\<close>

type_synonym date = int

record zone =
  initialOffset :: int
  changes :: "(int \<times> int) list"

definition fixedZone :: "int \<Rightarrow> zone" where
  \<comment> \<open>a zone whose offset never changes\<close>
  "fixedZone tz = \<lparr>initialOffset = tz, changes = []\<rparr>"

definition newYork_2026 :: zone where
  \<comment> \<open>America/New_York around 2026: UTC-5, daylight saving time (UTC-4) from
      2026-03-08T07:00Z to 2026-11-01T06:00Z\<close>
  "newYork_2026 = \<lparr>initialOffset = - 18000000,
     changes = [(1772953200000, - 14400000), (1793512800000, - 18000000)]\<rparr>"

fun offsetAtInstant :: "int \<Rightarrow> (int \<times> int) list \<Rightarrow> int \<Rightarrow> int" where
  "offsetAtInstant off [] t = off"
| "offsetAtInstant off ((T, off') # cs) t = (if t < T then off else offsetAtInstant off' cs t)"

fun offsetOfLocal :: "int \<Rightarrow> (int \<times> int) list \<Rightarrow> int \<Rightarrow> int" where
  \<comment> \<open>the change at \<open>T\<close> happens at the local time \<open>T + off\<close> of the old offset and
      \<open>T + off'\<close> of the new one; the local times between the two are skipped or repeated
      and belong to the old offset\<close>
  "offsetOfLocal off [] t = off"
| "offsetOfLocal off ((T, off') # cs) t =
     (if t < T + max off off' then off else offsetOfLocal off' cs t)"

definition LocalTZA :: "zone \<Rightarrow> int \<Rightarrow> bool \<Rightarrow> int" where
  "LocalTZA z t isUTC =
     (if isUTC then offsetAtInstant (initialOffset z) (changes z) t
      else offsetOfLocal (initialOffset z) (changes z) t)"

definition msPerDay :: int where "msPerDay = 86400000"
definition msPerHour :: int where "msPerHour = 3600000"
definition msPerMinute :: int where "msPerMinute = 60000"
definition msPerSecond :: int where "msPerSecond = 1000"

definition Day :: "int \<Rightarrow> int" where "Day t = t div msPerDay"
definition HourFromTime :: "int \<Rightarrow> int" where "HourFromTime t = (t div msPerHour) mod 24"
definition MinFromTime :: "int \<Rightarrow> int" where "MinFromTime t = (t div msPerMinute) mod 60"
definition SecFromTime :: "int \<Rightarrow> int" where "SecFromTime t = (t div msPerSecond) mod 60"
definition msFromTime :: "int \<Rightarrow> int" where "msFromTime t = t mod msPerSecond"

definition MakeTime :: "int \<Rightarrow> int \<Rightarrow> int \<Rightarrow> int \<Rightarrow> int" where
  "MakeTime hour minute sec ms = hour * msPerHour + minute * msPerMinute + sec * msPerSecond + ms"

definition MakeDate :: "int \<Rightarrow> int \<Rightarrow> int" where
  "MakeDate day time = day * msPerDay + time"

definition LocalTime :: "zone \<Rightarrow> date \<Rightarrow> int" where
  "LocalTime z t = t + LocalTZA z t True"

definition UTC :: "zone \<Rightarrow> int \<Rightarrow> date" where
  "UTC z t = t - LocalTZA z t False"

definition getHours :: "zone \<Rightarrow> date \<Rightarrow> int" where
  "getHours z d = HourFromTime (LocalTime z d)"

definition getMinutes :: "zone \<Rightarrow> date \<Rightarrow> int" where
  "getMinutes z d = MinFromTime (LocalTime z d)"

definition getSeconds :: "zone \<Rightarrow> date \<Rightarrow> int" where
  "getSeconds z d = SecFromTime (LocalTime z d)"

definition getMilliseconds :: "zone \<Rightarrow> date \<Rightarrow> int" where
  "getMilliseconds z d = msFromTime (LocalTime z d)"

definition setMinutes :: "zone \<Rightarrow> int \<Rightarrow> date \<Rightarrow> date" where
  \<comment> \<open>\<^verbatim>\<open>d.setMinutes(min)\<close>: the other fields of the local time are kept\<close>
  "setMinutes z minute d =
     (let t = LocalTime z d
      in UTC z (MakeDate (Day t)
           (MakeTime (HourFromTime t) minute (SecFromTime t) (msFromTime t))))"

definition setHours :: "zone \<Rightarrow> int \<Rightarrow> int \<Rightarrow> int \<Rightarrow> int \<Rightarrow> date \<Rightarrow> date" where
  \<comment> \<open>\<^verbatim>\<open>d.setHours(hour, min, sec, ms)\<close>: the local day is kept\<close>
  "setHours z hour minute sec ms d =
     (let t = LocalTime z d in UTC z (MakeDate (Day t) (MakeTime hour minute sec ms)))"

definition setDate_next :: "zone \<Rightarrow> date \<Rightarrow> date" where
  \<comment> \<open>\<^verbatim>\<open>d.setDate(d.getDate() + 1)\<close>: the day after the local day of \<open>d\<close>, at the same
      local time within the day (a day of the month past the end of the month runs into
      the next month)\<close>
  "setDate_next z d =
     (let t = LocalTime z d in UTC z (MakeDate (Day t + 1) (t mod msPerDay)))"

section \<open>The time parser\<close>

text \<open>
  \<^verbatim>\<open>parseTimeToDate\<close> exists in two source files, \<^verbatim>\<open>part_000\<close>
  (\<^verbatim>\<open>lib/background-notifications.ts\<close>) and \<^verbatim>\<open>part_001\<close>. They differ in the test
  that chooses the 12-hour branch and in what they write to the console; the two branches
  and the validation are the same text. A console entry is the list of the arguments of
  the call; the pictographs that open some of the texts are left out.
\<close>

datatype console_entry =
    ConsoleLog "string list"
  | ConsoleWarn "string list"
  | ConsoleError "string list"

definition minutesOf :: "string list \<Rightarrow> int option" where
  \<comment> \<open>\<^verbatim>\<open>parts[1] ? parseInt(parts[1]) : 0\<close>: a missing or empty second part is falsy\<close>
  "minutesOf parts =
     (case parts of _ # p1 # _ \<Rightarrow> if p1 \<noteq> [] then parseInt p1 else Some 0 | _ \<Rightarrow> Some 0)"

definition hoursOf :: "string list \<Rightarrow> int option" where
  \<comment> \<open>\<^verbatim>\<open>parseInt(parts[0])\<close>\<close>
  "hoursOf parts = (case parts of p0 # _ \<Rightarrow> parseInt p0 | [] \<Rightarrow> None)"

definition hoursMinutes12 :: "string \<Rightarrow> int option \<times> int option" where
  \<comment> \<open>the 12-hour branch; \<open>timeStr\<close> is already trimmed\<close>
  "hoursMinutes12 timeStr =
     (let isPM = includes_str (toLowerCase timeStr) ''pm'';
          cleanTime = trim (replace_meridiem timeStr);
          parts = split_str CHR '':'' cleanTime;
          hours = hoursOf parts;
          minutes = minutesOf parts;
          hours = (if isPM \<and> hours \<noteq> Some 12 then map_option (\<lambda>h. h + 12) hours else hours);
          hours = (if \<not> isPM \<and> hours = Some 12 then Some 0 else hours)
      in (hours, minutes))"

definition hoursMinutes24 :: "string \<Rightarrow> int option \<times> int option" where
  \<comment> \<open>the 24-hour branch\<close>
  "hoursMinutes24 timeStr =
     (let parts = split_str CHR '':'' timeStr in (hoursOf parts, minutesOf parts))"

definition is12Hour_part000 :: "string \<Rightarrow> bool" where
  "is12Hour_part000 timeStr \<longleftrightarrow>
     includes_str timeStr ''AM'' \<or> includes_str timeStr ''PM'' \<or>
     includes_str timeStr ''am'' \<or> includes_str timeStr ''pm''"

definition is12Hour_part001 :: "string \<Rightarrow> bool" where
  "is12Hour_part001 timeStr \<longleftrightarrow>
     includes_str (toLowerCase timeStr) ''am'' \<or> includes_str (toLowerCase timeStr) ''pm''"

definition hoursMinutes_part000 :: "string \<Rightarrow> int option \<times> int option" where
  \<comment> \<open>the values of \<open>hours\<close> and \<open>minutes\<close> when the validation is reached, from
      \<^verbatim>\<open>timeStr = timeStr.trim()\<close> on\<close>
  "hoursMinutes_part000 timeStr0 =
     (let timeStr = trim timeStr0
      in if is12Hour_part000 timeStr then hoursMinutes12 timeStr else hoursMinutes24 timeStr)"

definition hoursMinutes_part001 :: "string \<Rightarrow> int option \<times> int option" where
  "hoursMinutes_part001 timeStr0 =
     (let timeStr = trim timeStr0
      in if is12Hour_part001 timeStr then hoursMinutes12 timeStr else hoursMinutes24 timeStr)"

definition invalidTime :: "int option \<times> int option \<Rightarrow> bool" where
  \<comment> \<open>the condition of the \<^verbatim>\<open>if\<close> under \<^verbatim>\<open>// Validate\<close>\<close>
  "invalidTime hm =
     (case hm of (hours, minutes) \<Rightarrow>
        isNaN hours \<or> isNaN minutes \<or> num_lt hours 0 \<or> num_gt hours 23 \<or>
        num_lt minutes 0 \<or> num_gt minutes 59)"

definition fallback :: "zone \<Rightarrow> date \<Rightarrow> date" where
  \<comment> \<open>\<^verbatim>\<open>fallback = new Date(); fallback.setMinutes(fallback.getMinutes() + 1)\<close>\<close>
  "fallback z now = setMinutes z (getMinutes z now + 1) now"

definition parseTimeToDate_part000 :: "zone \<Rightarrow> date \<Rightarrow> string \<Rightarrow> date \<times> console_entry list" where
  \<comment> \<open>the returned date, and what was written to the console\<close>
  "parseTimeToDate_part000 z now timeStr =
     (let hm = hoursMinutes_part000 timeStr
      in if invalidTime hm
         then (fallback z now, [ConsoleError [''Invalid time format:'', trim timeStr]])
         else (let scheduledTime = setHours z (the (fst hm)) (the (snd hm)) 0 0 now
               in if scheduledTime \<le> now
                  then (setDate_next z scheduledTime,
                        [ConsoleLog [''Time has passed today, scheduling for tomorrow'']])
                  else (scheduledTime, [])))"

definition parseTimeToDate_part001 :: "zone \<Rightarrow> date \<Rightarrow> string \<Rightarrow> date \<times> console_entry list" where
  \<comment> \<open>this version writes nothing to the console\<close>
  "parseTimeToDate_part001 z now timeStr =
     (let hm = hoursMinutes_part001 timeStr
      in if invalidTime hm
         then (fallback z now, [])
         else (let scheduledTime = setHours z (the (fst hm)) (the (snd hm)) 0 0 now
               in if scheduledTime \<le> now
                  then (setDate_next z scheduledTime, [])
                  else (scheduledTime, [])))"

section \<open>The service worker: \<^verbatim>\<open>public/sw.js\<close>\<close>

text \<open>
  The state of the worker is the map \<^verbatim>\<open>scheduledNotifications\<close> (the Store), the timers
  that \<^verbatim>\<open>setTimeout\<close> has armed and that have neither fired nor been cleared, the next
  handle \<^verbatim>\<open>setTimeout\<close> will return, the notifications handed to
  \<^verbatim>\<open>registration.showNotification\<close>, and the lines written with \<^verbatim>\<open>console.warn\<close>
  (the \<^verbatim>\<open>console.log\<close> lines are left out). Identifiers are strings, as the foreground
  sends them. The \<^verbatim>\<open>scheduledTime\<close> of a message is modelled by the time value of
  \<^verbatim>\<open>new Date(scheduledTime)\<close>, \<open>None\<close> when that is NaN.
\<close>

record scheduled =
  timeoutId :: nat
  title :: string
  body :: string
  scheduledTime :: "int option"

record timer =
  \<comment> \<open>an armed timer: the delay given to \<^verbatim>\<open>setTimeout\<close> (\<open>None\<close> for NaN, which the
      platform takes as 0) and the variables its callback closes over\<close>
  delay :: "int option"
  cb_title :: string
  cb_body :: string
  cb_id :: string

record notification =
  ntitle :: string
  nbody :: string
  tag :: string

record sw =
  scheduledNotifications :: "string \<rightharpoonup> scheduled"
  timeouts :: "nat \<rightharpoonup> timer"
  nextTimeoutId :: nat
  shown :: "notification list"
  console :: "console_entry list"

definition initial_sw :: sw where
  "initial_sw = \<lparr>scheduledNotifications = Map.empty, timeouts = Map.empty,
     nextTimeoutId = 1, shown = [], console = []\<rparr>"

definition maxTimeout :: int where
  "maxTimeout = 2147483647"

definition cancelScheduledNotification :: "string \<Rightarrow> sw \<Rightarrow> sw" where
  "cancelScheduledNotification i s =
     (case scheduledNotifications s i of
        None \<Rightarrow> s
      | Some n \<Rightarrow>
          s\<lparr>timeouts := (timeouts s)(timeoutId n := None),
            scheduledNotifications := (scheduledNotifications s)(i := None)\<rparr>)"

definition showNotification :: "string \<Rightarrow> string \<Rightarrow> string \<Rightarrow> sw \<Rightarrow> sw" where
  \<comment> \<open>\<^verbatim>\<open>tag: tag || 'activity-reminder'\<close>: the empty string is falsy\<close>
  "showNotification t b tg s =
     s\<lparr>shown := shown s @
         [\<lparr>ntitle = t, nbody = b, tag = (if tg \<noteq> [] then tg else ''activity-reminder'')\<rparr>]\<rparr>"

definition scheduleNotification ::
    "string \<Rightarrow> string \<Rightarrow> string \<Rightarrow> int option \<Rightarrow> date \<Rightarrow> sw \<Rightarrow> sw" where
  \<comment> \<open>\<open>now\<close> is what \<^verbatim>\<open>Date.now()\<close> reads\<close>
  "scheduleNotification i t b st now s0 =
     (let s = cancelScheduledNotification i s0;
          delay = map_option (\<lambda>triggerTime. triggerTime - now) st
      in if num_le delay 0 then showNotification t b i s
         else if num_gt delay maxTimeout
         then s\<lparr>console := console s @
                 [ConsoleWarn [''[SW] Delay too long, capping at max timeout'']]\<rparr>
         else (let h = nextTimeoutId s
               in s\<lparr>timeouts := (timeouts s)(h \<mapsto>
                       \<lparr>delay = delay, cb_title = t, cb_body = b, cb_id = i\<rparr>),
                     nextTimeoutId := h + 1,
                     scheduledNotifications := (scheduledNotifications s)(i \<mapsto>
                       \<lparr>timeoutId = h, title = t, body = b, scheduledTime = st\<rparr>)\<rparr>))"

definition fire :: "nat \<Rightarrow> sw \<Rightarrow> sw" where
  \<comment> \<open>the platform runs the callback of the armed timer \<open>h\<close>; a timer fires once, and a
      timer that is not armed does not fire\<close>
  "fire h s =
     (case timeouts s h of
        None \<Rightarrow> s
      | Some c \<Rightarrow>
          (let s1 = showNotification (cb_title c) (cb_body c) (cb_id c)
                      (s\<lparr>timeouts := (timeouts s)(h := None)\<rparr>)
           in s1\<lparr>scheduledNotifications := (scheduledNotifications s1)(cb_id c := None)\<rparr>))"

datatype message =
    SCHEDULE_NOTIFICATION string string string "int option"
  | CANCEL_NOTIFICATION string
  | GET_SCHEDULED
  | SKIP_WAITING

definition onmessage :: "message \<Rightarrow> date \<Rightarrow> sw \<Rightarrow> sw" where
  \<comment> \<open>the \<^verbatim>\<open>message\<close> listener; the reply to \<^verbatim>\<open>GET_SCHEDULED\<close> and
      \<^verbatim>\<open>skipWaiting\<close> do not change the state\<close>
  "onmessage msg now s =
     (case msg of
        SCHEDULE_NOTIFICATION i t b st \<Rightarrow> scheduleNotification i t b st now s
      | CANCEL_NOTIFICATION i \<Rightarrow> cancelScheduledNotification i s
      | GET_SCHEDULED \<Rightarrow> s
      | SKIP_WAITING \<Rightarrow> s)"

datatype event =
    Message message date
  | TimerFires nat

fun step :: "sw \<Rightarrow> event \<Rightarrow> sw" where
  "step s (Message msg now) = onmessage msg now s"
| "step s (TimerFires h) = fire h s"

definition run :: "event list \<Rightarrow> sw" where
  \<comment> \<open>the state of a worker that has processed the events, in order, since it started\<close>
  "run evs = foldl step initial_sw evs"

definition armedFor :: "sw \<Rightarrow> string \<Rightarrow> nat set" where
  \<comment> \<open>the handles of the armed timers whose callback is for the identifier \<open>i\<close>\<close>
  "armedFor s i = {h. \<exists>c. timeouts s h = Some c \<and> cb_id c = i}"

definition store_timers_inv :: "sw \<Rightarrow> bool" where
  \<comment> \<open>every entry of the Store owns an armed timer for its identifier, every armed timer is
      owned by the entry of its identifier, and the armed handles are finitely many and
      below the next handle\<close>
  "store_timers_inv s \<longleftrightarrow>
     (\<forall>i n. scheduledNotifications s i = Some n \<longrightarrow>
        (\<exists>c. timeouts s (timeoutId n) = Some c \<and> cb_id c = i)) \<and>
     (\<forall>h c. timeouts s h = Some c \<longrightarrow>
        (\<exists>n. scheduledNotifications s (cb_id c) = Some n \<and> timeoutId n = h)) \<and>
     (\<forall>h c. timeouts s h = Some c \<longrightarrow> h < nextTimeoutId s) \<and>
     finite (dom (timeouts s))"

section \<open>The foreground manager: \<^verbatim>\<open>BackgroundNotificationManager\<close>\<close>

text \<open>
  The class exists in \<^verbatim>\<open>part_000\<close> and \<^verbatim>\<open>part_001\<close>. The platform is a record of what
  the browser answers: the permission, the result of \<^verbatim>\<open>serviceWorker.register\<close>
  (\<open>None\<close> when it rejects), whether an installing worker reaches the state
  \<^verbatim>\<open>activated\<close> and whether \<^verbatim>\<open>serviceWorker.ready\<close> settles (a promise that never
  settles suspends the caller for ever: the model returns \<open>None\<close>), and the answer to the
  permission prompt (\<open>None\<close> when \<^verbatim>\<open>Notification.requestPermission\<close> rejects). A method
  returns its result, the manager after the call, and what it did: alerts, prompts,
  messages posted. The texts of the alerts are named, not spelled out.
\<close>

datatype permission = Default | Granted | Denied

record sw_registration =
  installing :: bool
  waiting :: bool
  active :: bool

record manager =
  registration :: "sw_registration option"
  isSupported :: bool
  isInitialized :: bool

record platform =
  permission :: permission
  registerResult :: "sw_registration option"
  activates :: bool
  readyResolves :: bool
  promptResult :: "permission option"

datatype alert =
    UnsupportedBrowser   \<comment> \<open>"Your browser does not support notifications ..."\<close>
  | InitializationFailed \<comment> \<open>"Failed to initialize notification service ..."\<close>
  | NotificationsBlocked
      \<comment> \<open>the numbered steps: "1. Click the lock icon in the address bar 2. ... Allow
          3. Refresh ..."\<close>
  | YouBlocked           \<comment> \<open>"You blocked notifications. Please enable them ..."\<close>
  | Dismissed            \<comment> \<open>"Notification permission was dismissed. Please try again."\<close>
  | RequestFailed        \<comment> \<open>"Failed to request permission. Please try again."\<close>
  | PermissionDenied     \<comment> \<open>"Notification permission denied"\<close>

datatype effect =
    Alert alert
  | Prompt
  | PostMessage message
  | TestNotification

definition initialize_part000 :: "platform \<Rightarrow> manager \<Rightarrow> (bool \<times> manager \<times> effect list) option" where
  "initialize_part000 p m =
     (if \<not> isSupported m then Some (False, m, [])
      else if isInitialized m then Some (True, m, [])
      else (case registerResult p of
              None \<Rightarrow> Some (False, m, [])
            | Some r \<Rightarrow>
                (let m1 = m\<lparr>registration := Some r\<rparr>;
                     es = (if \<not> installing r \<and> waiting r then [PostMessage SKIP_WAITING] else [])
                 in if installing r \<and> \<not> activates p then None
                    else if \<not> readyResolves p then None
                    else Some (True, m1\<lparr>isInitialized := True\<rparr>, es))))"

definition initialize_part001 :: "platform \<Rightarrow> manager \<Rightarrow> (bool \<times> manager \<times> effect list) option" where
  \<comment> \<open>the first test is \<^verbatim>\<open>if (!this.isSupported || this.isInitialized) return this.isInitialized\<close>\<close>
  "initialize_part001 p m =
     (if \<not> isSupported m \<or> isInitialized m then Some (isInitialized m, m, [])
      else (case registerResult p of
              None \<Rightarrow> Some (False, m, [])
            | Some r \<Rightarrow>
                (let m1 = m\<lparr>registration := Some r\<rparr>;
                     es = (if \<not> installing r \<and> waiting r then [PostMessage SKIP_WAITING] else [])
                 in if installing r \<and> \<not> activates p then None
                    else if \<not> readyResolves p then None
                    else Some (True, m1\<lparr>isInitialized := True\<rparr>, es))))"

definition sendTestNotification :: "permission \<Rightarrow> manager \<Rightarrow> effect list" where
  "sendTestNotification perm m =
     (if registration m \<noteq> None \<and> perm = Granted then [TestNotification] else [])"

definition requestPermission_part000 ::
    "platform \<Rightarrow> manager \<Rightarrow> (bool \<times> manager \<times> effect list) option" where
  "requestPermission_part000 p m =
     (if \<not> isSupported m then Some (False, m, [Alert UnsupportedBrowser])
      else
        (case (if \<not> isInitialized m then initialize_part000 p m else Some (True, m, [])) of
           None \<Rightarrow> None
         | Some (initialized, m1, es) \<Rightarrow>
             if \<not> initialized then Some (False, m1, es @ [Alert InitializationFailed])
             else if permission p = Granted
             then Some (True, m1, es @ sendTestNotification Granted m1)
             else if permission p = Denied
             then Some (False, m1, es @ [Alert NotificationsBlocked])
             else (case promptResult p of
                     None \<Rightarrow> Some (False, m1, es @ [Prompt, Alert RequestFailed])
                   | Some Granted \<Rightarrow>
                       Some (True, m1, es @ [Prompt] @ sendTestNotification Granted m1)
                   | Some Denied \<Rightarrow> Some (False, m1, es @ [Prompt, Alert YouBlocked])
                   | Some Default \<Rightarrow> Some (False, m1, es @ [Prompt, Alert Dismissed]))))"

definition requestPermission_part001 ::
    "platform \<Rightarrow> manager \<Rightarrow> (bool \<times> manager \<times> effect list) option" where
  "requestPermission_part001 p m =
     (if \<not> isSupported m then Some (False, m, [Alert UnsupportedBrowser])
      else
        (case (if \<not> isInitialized m then initialize_part001 p m else Some (True, m, [])) of
           None \<Rightarrow> None
         | Some (initialized, m1, es) \<Rightarrow>
             if \<not> initialized then Some (False, m1, es @ [Alert InitializationFailed])
             else if permission p = Granted then Some (True, m1, es)
             else if permission p = Denied
             then Some (False, m1, es @ [Alert NotificationsBlocked])
             else (case promptResult p of
                     None \<Rightarrow> Some (False, m1, es @ [Prompt])
                   | Some Granted \<Rightarrow> Some (True, m1, es @ [Prompt])
                   | Some _ \<Rightarrow> Some (False, m1, es @ [Prompt, Alert PermissionDenied]))))"

definition manager_scheduleNotification_part000 ::
    "platform \<Rightarrow> manager \<Rightarrow> string \<Rightarrow> string \<Rightarrow> string \<Rightarrow> date \<Rightarrow>
     (bool \<times> manager \<times> effect list) option" where
  \<comment> \<open>\<^verbatim>\<open>scheduleNotification\<close> of the class. The date is sent as \<^verbatim>\<open>toISOString()\<close>, which
      the worker reads back to the same time value.\<close>
  "manager_scheduleNotification_part000 p m i t b scheduledAt =
     (case (if \<not> isInitialized m then initialize_part000 p m else Some (True, m, [])) of
        None \<Rightarrow> None
      | Some (_, m1, es) \<Rightarrow>
          (case registration m1 of
             None \<Rightarrow> Some (False, m1, es)
           | Some r \<Rightarrow>
               if permission p \<noteq> Granted then Some (False, m1, es)
               else if \<not> (active r \<or> waiting r \<or> installing r) then Some (False, m1, es)
               else Some (True, m1,
                      es @ [PostMessage (SCHEDULE_NOTIFICATION i t b (Some scheduledAt))])))"

definition manager_scheduleNotification_part001 ::
    "platform \<Rightarrow> manager \<Rightarrow> string \<Rightarrow> string \<Rightarrow> string \<Rightarrow> date \<Rightarrow>
     (bool \<times> manager \<times> effect list) option" where
  \<comment> \<open>the same method in \<^verbatim>\<open>part_001\<close>, with the two tests written as one\<close>
  "manager_scheduleNotification_part001 p m i t b scheduledAt =
     (case (if \<not> isInitialized m then initialize_part001 p m else Some (True, m, [])) of
        None \<Rightarrow> None
      | Some (_, m1, es) \<Rightarrow>
          (case registration m1 of
             None \<Rightarrow> Some (False, m1, es)
           | Some r \<Rightarrow>
               if permission p \<noteq> Granted then Some (False, m1, es)
               else if \<not> (active r \<or> waiting r \<or> installing r) then Some (False, m1, es)
               else Some (True, m1,
                      es @ [PostMessage (SCHEDULE_NOTIFICATION i t b (Some scheduledAt))])))"

definition spec_hour24 :: "bool \<Rightarrow> int \<Rightarrow> int" where
  \<comment> \<open>the 24-hour value of the hour \<open>h\<close> of a 12-hour time, as the specification states it:
      12 am is 0, 12 pm is 12, any other hour with pm adds 12\<close>
  "spec_hour24 pm h = (if pm then (if h = 12 then 12 else h + 12) else (if h = 12 then 0 else h))"

definition ready_manager :: manager where
  \<comment> \<open>a manager after a successful \<^verbatim>\<open>initialize\<close>, with an active worker\<close>
  "ready_manager = \<lparr>registration = Some \<lparr>installing = False, waiting = False, active = True\<rparr>,
     isSupported = True, isInitialized = True\<rparr>"

definition granted_platform :: platform where
  "granted_platform = \<lparr>permission = Granted,
     registerResult = Some \<lparr>installing = False, waiting = False, active = True\<rparr>,
     activates = True, readyResolves = True, promptResult = Some Granted\<rparr>"

section \<open>Facts about dates\<close>

lemma LocalTime_fixed: "LocalTime (fixedZone tz) t = t + tz"
  by (simp add: LocalTime_def LocalTZA_def fixedZone_def)

lemma UTC_fixed: "UTC (fixedZone tz) t = t - tz"
  by (simp add: UTC_def LocalTZA_def fixedZone_def)

lemma time_fields:
  "MakeDate (Day t) (MakeTime (HourFromTime t) (MinFromTime t) (SecFromTime t) (msFromTime t)) = t"
proof -
  define a where "a = t div 1000"
  define b where "b = a div 60"
  define c where "c = b div 60"
  have m: "t div 60000 = b"
    using zdiv_zmult2_eq [of 60 t 1000] by (simp add: a_def b_def)
  have h: "t div 3600000 = c"
    using zdiv_zmult2_eq [of 60 t 60000] m by (simp add: c_def)
  have d: "t div 86400000 = c div 24"
    using zdiv_zmult2_eq [of 24 t 3600000] h by simp
  have "t = a * 1000 + t mod 1000" by (simp add: a_def)
  moreover have "a = b * 60 + a mod 60" by (simp add: b_def)
  moreover have "b = c * 60 + b mod 60" by (simp add: c_def)
  moreover have "c = (c div 24) * 24 + c mod 24" by simp
  ultimately have "t = (c div 24) * 86400000 + (c mod 24) * 3600000 + (b mod 60) * 60000
     + (a mod 60) * 1000 + t mod 1000" by linarith
  then show ?thesis
    by (simp add: MakeDate_def MakeTime_def Day_def HourFromTime_def MinFromTime_def
        SecFromTime_def msFromTime_def msPerDay_def msPerHour_def msPerMinute_def
        msPerSecond_def m h d a_def [symmetric])
qed

lemma MakeTime_next_minute:
  "MakeDate dd (MakeTime hh (mm + 1) ss ms) = MakeDate dd (MakeTime hh mm ss ms) + 60000"
  by (simp add: MakeDate_def MakeTime_def msPerMinute_def algebra_simps)

lemma fallback_local: "fallback z now = UTC z (LocalTime z now + 60000)"
  by (simp add: fallback_def setMinutes_def getMinutes_def Let_def MakeTime_next_minute
      time_fields)

lemma fallback_same_offset:
  assumes "LocalTZA z (LocalTime z now + 60000) False = LocalTZA z now True"
  shows "fallback z now = now + 60000"
  using assms by (simp add: fallback_local UTC_def LocalTime_def)

lemma fallback_eq: "fallback (fixedZone tz) now = now + 60000"
  by (simp add: fallback_local LocalTime_fixed UTC_fixed)

lemma Day_bounds: "Day t * msPerDay \<le> t \<and> t < Day t * msPerDay + msPerDay"
proof -
  have "t = Day t * msPerDay + t mod msPerDay" by (simp add: Day_def)
  moreover have "0 \<le> t mod msPerDay" "t mod msPerDay < msPerDay" by (simp_all add: msPerDay_def)
  ultimately show ?thesis by linarith
qed

section \<open>The Store and the armed timers\<close>

lemma inv_initial: "store_timers_inv initial_sw"
  by (simp add: store_timers_inv_def initial_sw_def)

lemma inv_cancel:
  assumes "store_timers_inv s"
  shows "store_timers_inv (cancelScheduledNotification i s)"
proof (cases "scheduledNotifications s i")
  case None
  then show ?thesis using assms by (simp add: cancelScheduledNotification_def)
next
  case (Some n)
  from assms have a1: "\<And>j k. scheduledNotifications s j = Some k \<Longrightarrow>
        \<exists>c. timeouts s (timeoutId k) = Some c \<and> cb_id c = j"
    and a2: "\<And>h c. timeouts s h = Some c \<Longrightarrow>
        \<exists>k. scheduledNotifications s (cb_id c) = Some k \<and> timeoutId k = h"
    and a3: "\<And>h c. timeouts s h = Some c \<Longrightarrow> h < nextTimeoutId s"
    and a4: "finite (dom (timeouts s))"
    unfolding store_timers_inv_def by blast+
  let ?s = "cancelScheduledNotification i s"
  have st: "scheduledNotifications ?s = (scheduledNotifications s)(i := None)"
    and tm: "timeouts ?s = (timeouts s)(timeoutId n := None)"
    and nx: "nextTimeoutId ?s = nextTimeoutId s"
    using Some by (simp_all add: cancelScheduledNotification_def)
  have b1: "\<exists>c. timeouts ?s (timeoutId k) = Some c \<and> cb_id c = j"
    if "scheduledNotifications ?s j = Some k" for j k
  proof -
    from that have ji: "j \<noteq> i" and jk: "scheduledNotifications s j = Some k"
      by (auto simp: st split: if_splits)
    from a1 [OF jk] obtain c where c: "timeouts s (timeoutId k) = Some c" "cb_id c = j" by blast
    from a1 [OF Some] obtain c' where c': "timeouts s (timeoutId n) = Some c'" "cb_id c' = i" by blast
    have "timeoutId k \<noteq> timeoutId n" using c c' ji by auto
    then show ?thesis using c by (simp add: tm)
  qed
  have b2: "\<exists>k. scheduledNotifications ?s (cb_id c) = Some k \<and> timeoutId k = h"
    if "timeouts ?s h = Some c" for h c
  proof -
    from that have hn: "h \<noteq> timeoutId n" and hc: "timeouts s h = Some c"
      by (auto simp: tm split: if_splits)
    from a2 [OF hc] obtain k where k: "scheduledNotifications s (cb_id c) = Some k" "timeoutId k = h"
      by blast
    have "cb_id c \<noteq> i" using k Some hn by auto
    then show ?thesis using k by (simp add: st)
  qed
  have b3: "h < nextTimeoutId ?s" if "timeouts ?s h = Some c" for h c
    using that a3 [of h c] by (auto simp: tm nx split: if_splits)
  have b4: "finite (dom (timeouts ?s))" using a4 by (simp add: tm)
  show ?thesis unfolding store_timers_inv_def using b1 b2 b3 b4 by blast
qed

lemma cancel_absent:
  assumes "store_timers_inv s"
  shows "scheduledNotifications (cancelScheduledNotification i s) i = None"
    and "armedFor (cancelScheduledNotification i s) i = {}"
proof -
  show n: "scheduledNotifications (cancelScheduledNotification i s) i = None"
    by (simp add: cancelScheduledNotification_def split: option.splits)
  have "store_timers_inv (cancelScheduledNotification i s)" by (rule inv_cancel [OF assms])
  then show "armedFor (cancelScheduledNotification i s) i = {}"
    using n unfolding store_timers_inv_def armedFor_def by fastforce
qed


lemma inv_showNotification:
  "store_timers_inv (showNotification t b tg s) = store_timers_inv s"
  by (simp add: store_timers_inv_def showNotification_def)

lemma inv_console:
  "store_timers_inv (s\<lparr>console := c\<rparr>) = store_timers_inv s"
  by (simp add: store_timers_inv_def)

lemma inv_arm:
  assumes inv: "store_timers_inv s" and absent: "scheduledNotifications s i = None"
  shows "store_timers_inv
     (s\<lparr>timeouts := (timeouts s)(nextTimeoutId s \<mapsto>
           \<lparr>delay = d, cb_title = t, cb_body = b, cb_id = i\<rparr>),
          nextTimeoutId := nextTimeoutId s + 1,
          scheduledNotifications := (scheduledNotifications s)(i \<mapsto>
           \<lparr>timeoutId = nextTimeoutId s, title = t, body = b, scheduledTime = st\<rparr>)\<rparr>)"
    (is "store_timers_inv ?s")
proof -
  from inv have a1: "\<And>j k. scheduledNotifications s j = Some k \<Longrightarrow>
        \<exists>c. timeouts s (timeoutId k) = Some c \<and> cb_id c = j"
    and a2: "\<And>h c. timeouts s h = Some c \<Longrightarrow>
        \<exists>k. scheduledNotifications s (cb_id c) = Some k \<and> timeoutId k = h"
    and a3: "\<And>h c. timeouts s h = Some c \<Longrightarrow> h < nextTimeoutId s"
    and a4: "finite (dom (timeouts s))"
    unfolding store_timers_inv_def by blast+
  have b1: "\<exists>c. timeouts ?s (timeoutId k) = Some c \<and> cb_id c = j"
    if "scheduledNotifications ?s j = Some k" for j k
  proof (cases "j = i")
    case True
    with that show ?thesis by auto
  next
    case False
    with that have jk: "scheduledNotifications s j = Some k" by simp
    from a1 [OF jk] obtain c where c: "timeouts s (timeoutId k) = Some c" "cb_id c = j" by blast
    from a3 [OF c(1)] have "timeoutId k \<noteq> nextTimeoutId s" by simp
    with c show ?thesis by simp
  qed
  have b2: "\<exists>k. scheduledNotifications ?s (cb_id c) = Some k \<and> timeoutId k = h"
    if "timeouts ?s h = Some c" for h c
  proof (cases "h = nextTimeoutId s")
    case True
    with that show ?thesis by auto
  next
    case False
    with that have hc: "timeouts s h = Some c" by simp
    from a2 [OF hc] obtain k where k: "scheduledNotifications s (cb_id c) = Some k" "timeoutId k = h"
      by blast
    have "cb_id c \<noteq> i" using k absent by auto
    with k show ?thesis by simp
  qed
  have b3: "h < nextTimeoutId ?s" if "timeouts ?s h = Some c" for h c
    using that a3 [of h c] by (cases "h = nextTimeoutId s") auto
  have b4: "finite (dom (timeouts ?s))" using a4 by simp
  show ?thesis unfolding store_timers_inv_def using b1 b2 b3 b4 by blast
qed

lemma inv_scheduleNotification:
  assumes "store_timers_inv s"
  shows "store_timers_inv (scheduleNotification i t b st now s)"
proof -
  let ?c = "cancelScheduledNotification i s"
  have c: "store_timers_inv ?c" by (rule inv_cancel [OF assms])
  have n: "scheduledNotifications ?c i = None" by (rule cancel_absent(1) [OF assms])
  show ?thesis
    unfolding scheduleNotification_def Let_def
    using c inv_arm [OF c n] by (simp add: inv_showNotification inv_console)
qed

lemma inv_fire:
  assumes inv: "store_timers_inv s"
  shows "store_timers_inv (fire h s)"
proof (cases "timeouts s h")
  case None
  then show ?thesis using inv by (simp add: fire_def)
next
  case (Some c)
  from inv have a1: "\<And>j k. scheduledNotifications s j = Some k \<Longrightarrow>
        \<exists>c. timeouts s (timeoutId k) = Some c \<and> cb_id c = j"
    and a2: "\<And>h c. timeouts s h = Some c \<Longrightarrow>
        \<exists>k. scheduledNotifications s (cb_id c) = Some k \<and> timeoutId k = h"
    and a3: "\<And>h c. timeouts s h = Some c \<Longrightarrow> h < nextTimeoutId s"
    and a4: "finite (dom (timeouts s))"
    unfolding store_timers_inv_def by blast+
  let ?s = "fire h s"
  have st: "scheduledNotifications ?s = (scheduledNotifications s)(cb_id c := None)"
    and tm: "timeouts ?s = (timeouts s)(h := None)"
    and nx: "nextTimeoutId ?s = nextTimeoutId s"
    using Some by (simp_all add: fire_def showNotification_def Let_def)
  from a2 [OF Some] obtain n where n: "scheduledNotifications s (cb_id c) = Some n" "timeoutId n = h"
    by blast
  have b1: "\<exists>c'. timeouts ?s (timeoutId k) = Some c' \<and> cb_id c' = j"
    if "scheduledNotifications ?s j = Some k" for j k
  proof -
    from that have ji: "j \<noteq> cb_id c" and jk: "scheduledNotifications s j = Some k"
      by (auto simp: st split: if_splits)
    from a1 [OF jk] obtain c' where c': "timeouts s (timeoutId k) = Some c'" "cb_id c' = j" by blast
    have "timeoutId k \<noteq> h" using c' Some ji by auto
    then show ?thesis using c' by (simp add: tm)
  qed
  have b2: "\<exists>k. scheduledNotifications ?s (cb_id c') = Some k \<and> timeoutId k = h'"
    if "timeouts ?s h' = Some c'" for h' c'
  proof -
    from that have hn: "h' \<noteq> h" and hc: "timeouts s h' = Some c'"
      by (auto simp: tm split: if_splits)
    from a2 [OF hc] obtain k where k: "scheduledNotifications s (cb_id c') = Some k" "timeoutId k = h'"
      by blast
    have "cb_id c' \<noteq> cb_id c" using k n hn by auto
    then show ?thesis using k by (simp add: st)
  qed
  have b3: "h' < nextTimeoutId ?s" if "timeouts ?s h' = Some c'" for h' c'
    using that a3 [of h' c'] by (auto simp: tm nx split: if_splits)
  have b4: "finite (dom (timeouts ?s))" using a4 by (simp add: tm)
  show ?thesis unfolding store_timers_inv_def using b1 b2 b3 b4 by blast
qed

lemma inv_step: "store_timers_inv s \<Longrightarrow> store_timers_inv (step s ev)"
proof (cases ev)
  case (Message msg now)
  assume "store_timers_inv s"
  then show ?thesis unfolding Message
    by (cases msg) (simp_all add: onmessage_def inv_scheduleNotification inv_cancel)
next
  case (TimerFires h)
  assume "store_timers_inv s"
  then show ?thesis unfolding TimerFires by (simp add: inv_fire)
qed

lemma inv_foldl: "store_timers_inv s \<Longrightarrow> store_timers_inv (foldl step s evs)"
  by (induction evs arbitrary: s) (simp_all add: inv_step)

lemma inv_run: "store_timers_inv (run evs)"
  unfolding run_def by (rule inv_foldl [OF inv_initial])

lemma inv_entry_iff_armed:
  assumes "store_timers_inv s"
  shows "(i \<in> dom (scheduledNotifications s)) = (armedFor s i \<noteq> {})"
  using assms unfolding store_timers_inv_def armedFor_def by fastforce

lemma inv_card:
  assumes inv: "store_timers_inv s"
  shows "card (dom (scheduledNotifications s)) = card (dom (timeouts s))"
proof -
  from inv have a1: "\<And>j k. scheduledNotifications s j = Some k \<Longrightarrow>
        \<exists>c. timeouts s (timeoutId k) = Some c \<and> cb_id c = j"
    and a2: "\<And>h c. timeouts s h = Some c \<Longrightarrow>
        \<exists>k. scheduledNotifications s (cb_id c) = Some k \<and> timeoutId k = h"
    unfolding store_timers_inv_def by blast+
  let ?f = "\<lambda>j. timeoutId (the (scheduledNotifications s j))"
  have "inj_on ?f (dom (scheduledNotifications s))"
  proof (rule inj_onI)
    fix x y
    assume x: "x \<in> dom (scheduledNotifications s)" and y: "y \<in> dom (scheduledNotifications s)"
      and e: "?f x = ?f y"
    from x obtain k where k: "scheduledNotifications s x = Some k" by blast
    from y obtain l where l: "scheduledNotifications s y = Some l" by blast
    from a1 [OF k] a1 [OF l] e k l show "x = y" by auto
  qed
  moreover have "?f ` dom (scheduledNotifications s) = dom (timeouts s)"
  proof (rule set_eqI, rule iffI)
    fix h
    assume "h \<in> ?f ` dom (scheduledNotifications s)"
    then obtain j k where "scheduledNotifications s j = Some k" "h = timeoutId k" by auto
    with a1 show "h \<in> dom (timeouts s)" by blast
  next
    fix h
    assume "h \<in> dom (timeouts s)"
    then obtain c where c: "timeouts s h = Some c" by blast
    from a2 [OF c] obtain k where k: "scheduledNotifications s (cb_id c) = Some k" "timeoutId k = h"
      by blast
    then have "?f (cb_id c) = h" "cb_id c \<in> dom (scheduledNotifications s)" by auto
    then show "h \<in> ?f ` dom (scheduledNotifications s)" by blast
  qed
  ultimately have "bij_betw ?f (dom (scheduledNotifications s)) (dom (timeouts s))"
    by (simp add: bij_betw_def)
  then show ?thesis by (rule bij_betw_same_card)
qed

text \<open>
  Claim C2. After any finite sequence of schedule, cancel and fire events processed by the
  worker, an identifier has an entry in the Store if and only if a timer for that
  identifier is armed, and the Store has as many entries as there are armed timers (which
  are finitely many).
\<close>

theorem store_matches_armed_triggers:
  "(\<forall>i. (i \<in> dom (scheduledNotifications (run evs))) = (armedFor (run evs) i \<noteq> {})) \<and>
   card (dom (scheduledNotifications (run evs))) = card (dom (timeouts (run evs))) \<and>
   finite (dom (timeouts (run evs)))"
  using inv_run [of evs] inv_entry_iff_armed [of "run evs"] inv_card [of "run evs"]
  by (simp add: store_timers_inv_def)

theorem store_matches_armed_triggers_witness:
  "(''x'' \<in> dom (scheduledNotifications
       (run [Message (SCHEDULE_NOTIFICATION ''x'' ''Walk dog'' '''' (Some 5000)) 0]))) =
   (armedFor (run [Message (SCHEDULE_NOTIFICATION ''x'' ''Walk dog'' '''' (Some 5000)) 0]) ''x''
      \<noteq> {})"
  using store_matches_armed_triggers
    [of "[Message (SCHEDULE_NOTIFICATION ''x'' ''Walk dog'' '''' (Some 5000)) 0]"]
  by blast

section \<open>Requests beyond the timer range\<close>

lemma over_capacity_state:
  assumes "st = Some t" and "maxTimeout < t - now"
  shows "scheduleNotification i ti b st now s =
           (cancelScheduledNotification i s)\<lparr>console := console s @
              [ConsoleWarn [''[SW] Delay too long, capping at max timeout'']]\<rparr>"
proof -
  have "console (cancelScheduledNotification i s) = console s"
    by (simp add: cancelScheduledNotification_def split: option.splits)
  then show ?thesis
    using assms
    by (simp add: scheduleNotification_def Let_def num_le_def num_gt_def maxTimeout_def)
qed

lemma cancel_fields:
  "shown (cancelScheduledNotification i s) = shown s"
  "console (cancelScheduledNotification i s) = console s"
  "nextTimeoutId (cancelScheduledNotification i s) = nextTimeoutId s"
  "scheduledNotifications (cancelScheduledNotification i s) = (scheduledNotifications s)(i := None)"
  "dom (timeouts (cancelScheduledNotification i s)) \<subseteq> dom (timeouts s)"
  by (auto simp add: cancelScheduledNotification_def split: option.splits if_splits)

lemma manager_result_independent_part000:
  "map_option fst (manager_scheduleNotification_part000 p m i ti b t) =
   map_option fst (manager_scheduleNotification_part000 p m i' ti' b' t')"
proof (cases "if \<not> isInitialized m then initialize_part000 p m else Some (True, m, [])")
  case None
  then show ?thesis by (simp add: manager_scheduleNotification_part000_def)
next
  case (Some r)
  obtain x m1 es where r: "r = (x, m1, es)" by (cases r)
  show ?thesis
    unfolding manager_scheduleNotification_part000_def Some r
    by (cases "registration m1") auto
qed

lemma manager_result_independent_part001:
  "map_option fst (manager_scheduleNotification_part001 p m i ti b t) =
   map_option fst (manager_scheduleNotification_part001 p m i' ti' b' t')"
proof (cases "if \<not> isInitialized m then initialize_part001 p m else Some (True, m, [])")
  case None
  then show ?thesis by (simp add: manager_scheduleNotification_part001_def)
next
  case (Some r)
  obtain x m1 es where r: "r = (x, m1, es)" by (cases r)
  show ?thesis
    unfolding manager_scheduleNotification_part001_def Some r
    by (cases "registration m1") auto
qed

text \<open>
  Claim C1, as amended. For every schedule request whose delay exceeds 2147483647 ms, the
  worker writes a warning and returns: after it the Store has no entry for the identifier,
  no timer has been armed (\<^verbatim>\<open>setTimeout\<close> was not called), and nothing was shown. The
  outcome is not surfaced: the foreground's \<^verbatim>\<open>scheduleNotification\<close> answers the caller
  exactly as it does for a request one millisecond ahead.
\<close>

theorem over_capacity_dropped_not_surfaced:
  assumes "st = Some t" and "maxTimeout < t - now"
  shows "scheduledNotifications (scheduleNotification i ti b st now s) i = None \<and>
         dom (timeouts (scheduleNotification i ti b st now s)) \<subseteq> dom (timeouts s) \<and>
         nextTimeoutId (scheduleNotification i ti b st now s) = nextTimeoutId s \<and>
         shown (scheduleNotification i ti b st now s) = shown s \<and>
         console (scheduleNotification i ti b st now s) =
           console s @ [ConsoleWarn [''[SW] Delay too long, capping at max timeout'']] \<and>
         map_option fst (manager_scheduleNotification_part000 p m i ti b t) =
           map_option fst (manager_scheduleNotification_part000 p m i ti b (now + 1)) \<and>
         map_option fst (manager_scheduleNotification_part001 p m i ti b t) =
           map_option fst (manager_scheduleNotification_part001 p m i ti b (now + 1))"
  using assms
    manager_result_independent_part000 [of p m i ti b t i ti b "now + 1"]
    manager_result_independent_part001 [of p m i ti b t i ti b "now + 1"]
  by (simp add: over_capacity_state cancel_fields)

text \<open>
  The claim C1 as stated fails: with a ready manager and permission granted, a request
  2147483648 ms ahead is answered with \<open>True\<close> (success) by the foreground, while the
  worker only writes a warning.
\<close>

theorem over_capacity_counterexample:
  "maxTimeout < 2147483648 - 0 \<and>
   manager_scheduleNotification_part000 granted_platform ready_manager
       ''x'' ''Walk dog'' '''' 2147483648 =
     Some (True, ready_manager,
           [PostMessage (SCHEDULE_NOTIFICATION ''x'' ''Walk dog'' '''' (Some 2147483648))]) \<and>
   manager_scheduleNotification_part001 granted_platform ready_manager
       ''x'' ''Walk dog'' '''' 2147483648 =
     Some (True, ready_manager,
           [PostMessage (SCHEDULE_NOTIFICATION ''x'' ''Walk dog'' '''' (Some 2147483648))]) \<and>
   onmessage (SCHEDULE_NOTIFICATION ''x'' ''Walk dog'' '''' (Some 2147483648)) 0 initial_sw =
     initial_sw\<lparr>console := [ConsoleWarn [''[SW] Delay too long, capping at max timeout'']]\<rparr>"
  by (simp add: maxTimeout_def manager_scheduleNotification_part000_def
      manager_scheduleNotification_part001_def ready_manager_def granted_platform_def
      onmessage_def scheduleNotification_def cancelScheduledNotification_def initial_sw_def
      num_le_def num_gt_def)

theorem over_capacity_dropped_not_surfaced_witness:
  "scheduledNotifications (scheduleNotification ''x'' ''Walk dog'' '''' (Some 2147483648) 0 initial_sw) ''x'' = None \<and>
   console (scheduleNotification ''x'' ''Walk dog'' '''' (Some 2147483648) 0 initial_sw) =
     [ConsoleWarn [''[SW] Delay too long, capping at max timeout'']]"
  using over_capacity_dropped_not_surfaced [of "Some 2147483648" 2147483648 0 "''x''" "''Walk dog''" "''''" initial_sw]
  by (simp add: maxTimeout_def initial_sw_def)

lemma cancel_timeouts:
  "scheduledNotifications s i = Some n \<Longrightarrow>
   timeouts (cancelScheduledNotification i s) = (timeouts s)(timeoutId n := None)"
  by (simp add: cancelScheduledNotification_def)

text \<open>
  Claim C8. The rejection for an over-long delay is not atomic: when the identifier has a
  live entry (with its armed timer), a schedule request for that identifier whose delay
  exceeds 2147483647 ms disarms that timer, removes the entry and arms nothing, so the
  Store ends with no entry and no timer for the identifier.
\<close>

theorem rejected_schedule_loses_existing_entry:
  assumes "scheduledNotifications (run evs) i = Some n"
    and "st = Some t" and "maxTimeout < t - now"
  shows "timeouts (run evs) (timeoutId n) \<noteq> None \<and>
         scheduledNotifications (scheduleNotification i ti b st now (run evs)) i = None \<and>
         timeouts (scheduleNotification i ti b st now (run evs)) =
           (timeouts (run evs))(timeoutId n := None) \<and>
         armedFor (scheduleNotification i ti b st now (run evs)) i = {} \<and>
         nextTimeoutId (scheduleNotification i ti b st now (run evs)) = nextTimeoutId (run evs)"
proof -
  have inv: "store_timers_inv (run evs)" by (rule inv_run)
  have eq: "scheduleNotification i ti b st now (run evs) =
           (cancelScheduledNotification i (run evs))\<lparr>console := console (run evs) @
              [ConsoleWarn [''[SW] Delay too long, capping at max timeout'']]\<rparr>"
    by (rule over_capacity_state [OF assms(2,3)])
  have armed: "timeouts (run evs) (timeoutId n) \<noteq> None"
    using inv assms(1) unfolding store_timers_inv_def by fastforce
  have "armedFor (scheduleNotification i ti b st now (run evs)) i =
        armedFor (cancelScheduledNotification i (run evs)) i"
    by (simp add: eq armedFor_def)
  then have "armedFor (scheduleNotification i ti b st now (run evs)) i = {}"
    by (simp add: cancel_absent(2) [OF inv])
  then show ?thesis
    using armed by (simp add: eq cancel_fields cancel_timeouts [OF assms(1)])
qed

theorem rejected_schedule_loses_existing_entry_witness:
  "scheduledNotifications
     (scheduleNotification ''x'' ''Later'' '''' (Some 3000000000) 10
        (run [Message (SCHEDULE_NOTIFICATION ''x'' ''Walk dog'' '''' (Some 5000)) 0])) ''x'' = None \<and>
   scheduledNotifications (run [Message (SCHEDULE_NOTIFICATION ''x'' ''Walk dog'' '''' (Some 5000)) 0]) ''x''
     = Some \<lparr>timeoutId = 1, title = ''Walk dog'', body = '''', scheduledTime = Some 5000\<rparr>"
proof -
  have e: "scheduledNotifications (run [Message (SCHEDULE_NOTIFICATION ''x'' ''Walk dog'' '''' (Some 5000)) 0]) ''x''
     = Some \<lparr>timeoutId = 1, title = ''Walk dog'', body = '''', scheduledTime = Some 5000\<rparr>"
    by (simp add: run_def onmessage_def scheduleNotification_def cancelScheduledNotification_def
        initial_sw_def num_le_def num_gt_def maxTimeout_def Let_def)
  have d: "maxTimeout < 3000000000 - 10" by (simp add: maxTimeout_def)
  from rejected_schedule_loses_existing_entry [OF e refl d] e show ?thesis by blast
qed

section \<open>Scheduling an identifier twice\<close>

lemma schedule_arms:
  assumes inv: "store_timers_inv s"
    and d: "\<not> num_le (map_option (\<lambda>t. t - now) st) 0"
           "\<not> num_gt (map_option (\<lambda>t. t - now) st) maxTimeout"
  shows "scheduledNotifications (scheduleNotification i ti b st now s) i =
           Some \<lparr>timeoutId = nextTimeoutId s, title = ti, body = b, scheduledTime = st\<rparr>"
    and "timeouts (scheduleNotification i ti b st now s) (nextTimeoutId s) =
           Some \<lparr>delay = map_option (\<lambda>t. t - now) st, cb_title = ti, cb_body = b, cb_id = i\<rparr>"
    and "armedFor (scheduleNotification i ti b st now s) i = {nextTimeoutId s}"
proof -
  let ?c = "cancelScheduledNotification i s"
  let ?s = "scheduleNotification i ti b st now s"
  have eq: "?s = ?c\<lparr>timeouts := (timeouts ?c)(nextTimeoutId s \<mapsto>
                 \<lparr>delay = map_option (\<lambda>t. t - now) st, cb_title = ti, cb_body = b, cb_id = i\<rparr>),
               nextTimeoutId := nextTimeoutId s + 1,
               scheduledNotifications := (scheduledNotifications ?c)(i \<mapsto>
                 \<lparr>timeoutId = nextTimeoutId s, title = ti, body = b, scheduledTime = st\<rparr>)\<rparr>"
    using d by (simp add: scheduleNotification_def Let_def cancel_fields)
  show "scheduledNotifications ?s i =
           Some \<lparr>timeoutId = nextTimeoutId s, title = ti, body = b, scheduledTime = st\<rparr>"
    by (simp add: eq)
  show "timeouts ?s (nextTimeoutId s) =
           Some \<lparr>delay = map_option (\<lambda>t. t - now) st, cb_title = ti, cb_body = b, cb_id = i\<rparr>"
    by (simp add: eq)
  have "armedFor ?c i = {}" by (rule cancel_absent(2) [OF inv])
  then have none: "\<And>h c. timeouts ?c h = Some c \<Longrightarrow> cb_id c \<noteq> i"
    unfolding armedFor_def by blast
  show "armedFor ?s i = {nextTimeoutId s}"
    unfolding armedFor_def eq using none by (auto split: if_splits)
qed

lemma schedule_not_armed:
  assumes inv: "store_timers_inv s"
    and d: "num_le (map_option (\<lambda>t. t - now) st) 0 \<or>
            num_gt (map_option (\<lambda>t. t - now) st) maxTimeout"
  shows "scheduledNotifications (scheduleNotification i ti b st now s) i = None"
    and "armedFor (scheduleNotification i ti b st now s) i = {}"
proof -
  let ?c = "cancelScheduledNotification i s"
  have a: "scheduledNotifications (scheduleNotification i ti b st now s) = scheduledNotifications ?c"
    and t: "timeouts (scheduleNotification i ti b st now s) = timeouts ?c"
    using d by (auto simp add: scheduleNotification_def Let_def showNotification_def)
  show "scheduledNotifications (scheduleNotification i ti b st now s) i = None"
    by (simp add: a cancel_absent(1) [OF inv])
  have "armedFor (scheduleNotification i ti b st now s) i = armedFor ?c i"
    by (simp add: armedFor_def t)
  then show "armedFor (scheduleNotification i ti b st now s) i = {}"
    by (simp add: cancel_absent(2) [OF inv])
qed

text \<open>
  Claim C3, as amended. Two schedule calls with the same identifier, one after the other:
  when the delay of the second call is neither \<open>\<le> 0\<close> nor above 2147483647 ms, the Store
  holds one entry for the identifier, with the parameters of the second call, and exactly
  one timer is armed for the identifier, the one of the second call. When the delay of the
  second call is \<open>\<le> 0\<close> or above 2147483647 ms, no entry and no timer for the identifier
  remain.
\<close>

theorem reschedule_replaces_when_armed:
  "(\<not> num_le (map_option (\<lambda>t. t - now2) st2) 0 \<and>
    \<not> num_gt (map_option (\<lambda>t. t - now2) st2) maxTimeout \<longrightarrow>
      scheduledNotifications
        (scheduleNotification i ti2 b2 st2 now2
          (scheduleNotification i ti1 b1 st1 now1 (run evs))) i =
        Some \<lparr>timeoutId = nextTimeoutId (scheduleNotification i ti1 b1 st1 now1 (run evs)),
              title = ti2, body = b2, scheduledTime = st2\<rparr> \<and>
      armedFor
        (scheduleNotification i ti2 b2 st2 now2
          (scheduleNotification i ti1 b1 st1 now1 (run evs))) i =
        {nextTimeoutId (scheduleNotification i ti1 b1 st1 now1 (run evs))} \<and>
      timeouts
        (scheduleNotification i ti2 b2 st2 now2
          (scheduleNotification i ti1 b1 st1 now1 (run evs)))
        (nextTimeoutId (scheduleNotification i ti1 b1 st1 now1 (run evs))) =
        Some \<lparr>delay = map_option (\<lambda>t. t - now2) st2, cb_title = ti2, cb_body = b2, cb_id = i\<rparr>) \<and>
   (num_le (map_option (\<lambda>t. t - now2) st2) 0 \<or>
    num_gt (map_option (\<lambda>t. t - now2) st2) maxTimeout \<longrightarrow>
      scheduledNotifications
        (scheduleNotification i ti2 b2 st2 now2
          (scheduleNotification i ti1 b1 st1 now1 (run evs))) i = None \<and>
      armedFor
        (scheduleNotification i ti2 b2 st2 now2
          (scheduleNotification i ti1 b1 st1 now1 (run evs))) i = {})"
proof -
  have inv: "store_timers_inv (scheduleNotification i ti1 b1 st1 now1 (run evs))"
    by (rule inv_scheduleNotification [OF inv_run])
  show ?thesis
  proof (intro conjI impI)
    assume d: "\<not> num_le (map_option (\<lambda>t. t - now2) st2) 0 \<and>
      \<not> num_gt (map_option (\<lambda>t. t - now2) st2) maxTimeout"
    then have d1: "\<not> num_le (map_option (\<lambda>t. t - now2) st2) 0"
      and d2: "\<not> num_gt (map_option (\<lambda>t. t - now2) st2) maxTimeout" by simp_all
    show "scheduledNotifications
        (scheduleNotification i ti2 b2 st2 now2
          (scheduleNotification i ti1 b1 st1 now1 (run evs))) i =
        Some \<lparr>timeoutId = nextTimeoutId (scheduleNotification i ti1 b1 st1 now1 (run evs)),
              title = ti2, body = b2, scheduledTime = st2\<rparr>"
      by (rule schedule_arms(1) [OF inv d1 d2])
    show "armedFor
        (scheduleNotification i ti2 b2 st2 now2
          (scheduleNotification i ti1 b1 st1 now1 (run evs))) i =
        {nextTimeoutId (scheduleNotification i ti1 b1 st1 now1 (run evs))}"
      by (rule schedule_arms(3) [OF inv d1 d2])
    show "timeouts
        (scheduleNotification i ti2 b2 st2 now2
          (scheduleNotification i ti1 b1 st1 now1 (run evs)))
        (nextTimeoutId (scheduleNotification i ti1 b1 st1 now1 (run evs))) =
        Some \<lparr>delay = map_option (\<lambda>t. t - now2) st2, cb_title = ti2, cb_body = b2, cb_id = i\<rparr>"
      by (rule schedule_arms(2) [OF inv d1 d2])
  next
    assume d: "num_le (map_option (\<lambda>t. t - now2) st2) 0 \<or>
      num_gt (map_option (\<lambda>t. t - now2) st2) maxTimeout"
    show "scheduledNotifications
        (scheduleNotification i ti2 b2 st2 now2
          (scheduleNotification i ti1 b1 st1 now1 (run evs))) i = None"
      by (rule schedule_not_armed(1) [OF inv d])
  next
    assume d: "num_le (map_option (\<lambda>t. t - now2) st2) 0 \<or>
      num_gt (map_option (\<lambda>t. t - now2) st2) maxTimeout"
    show "armedFor
        (scheduleNotification i ti2 b2 st2 now2
          (scheduleNotification i ti1 b1 st1 now1 (run evs))) i = {}"
      by (rule schedule_not_armed(2) [OF inv d])
  qed
qed

text \<open>
  The claim C3 as stated fails when the time of the second call has passed: the first
  entry is removed, the notification is shown at once, and the Store has no entry.
\<close>

theorem reschedule_past_time_counterexample:
  "scheduledNotifications
     (scheduleNotification ''x'' ''Later'' ''b'' (Some 4000) 6000
        (scheduleNotification ''x'' ''Walk dog'' '''' (Some 5000) 0 initial_sw)) ''x'' = None"
  by (simp add: scheduleNotification_def cancelScheduledNotification_def showNotification_def
      initial_sw_def num_le_def num_gt_def maxTimeout_def Let_def)

theorem reschedule_replaces_when_armed_witness:
  "(\<not> num_le (map_option (\<lambda>t. t - 10) (Some 9000)) 0 \<and>
    \<not> num_gt (map_option (\<lambda>t. t - 10) (Some 9000)) maxTimeout \<and>
    scheduledNotifications
      (scheduleNotification ''x'' ''Feed cat'' ''b'' (Some 9000) 10
        (scheduleNotification ''x'' ''Walk dog'' '''' (Some 5000) 0 (run []))) ''x'' =
      Some \<lparr>timeoutId = 2, title = ''Feed cat'', body = ''b'', scheduledTime = Some 9000\<rparr> \<and>
    armedFor
      (scheduleNotification ''x'' ''Feed cat'' ''b'' (Some 9000) 10
        (scheduleNotification ''x'' ''Walk dog'' '''' (Some 5000) 0 (run []))) ''x'' = {2}) \<and>
   (num_le (map_option (\<lambda>t. t - 6000) (Some 4000)) 0 \<and>
    armedFor
      (scheduleNotification ''x'' ''Later'' ''b'' (Some 4000) 6000
        (scheduleNotification ''x'' ''Walk dog'' '''' (Some 5000) 0 (run []))) ''x'' = {})"
proof -
  have n: "nextTimeoutId (scheduleNotification ''x'' ''Walk dog'' '''' (Some 5000) 0 (run [])) = 2"
    by (simp add: run_def scheduleNotification_def cancelScheduledNotification_def
        initial_sw_def num_le_def num_gt_def maxTimeout_def Let_def)
  have h1: "\<not> num_le (map_option (\<lambda>t. t - 10) (Some 9000)) 0 \<and>
    \<not> num_gt (map_option (\<lambda>t. t - 10) (Some 9000)) maxTimeout"
    by (simp add: num_le_def num_gt_def maxTimeout_def)
  have h2: "num_le (map_option (\<lambda>t. t - 6000) (Some 4000)) 0"
    by (simp add: num_le_def)
  from reschedule_replaces_when_armed
    [of 10 "Some 9000" "''x''" "''Feed cat''" "''b''" "''Walk dog''" "''''" "Some 5000" 0 "[]"]
    reschedule_replaces_when_armed
    [of 6000 "Some 4000" "''x''" "''Later''" "''b''" "''Walk dog''" "''''" "Some 5000" 0 "[]"]
    h1 h2 n
  show ?thesis by simp
qed

section \<open>The tag of a fired alert\<close>

text \<open>
  Claim C10. When the worker fires an item, from a timer or at once because its time has
  passed, the alert is rendered with the tag \<^verbatim>\<open>activity-reminder\<close> if the identifier is the
  empty string, and with the identifier as tag otherwise.
\<close>

theorem fired_alert_tag:
  "(timeouts s h = Some c \<longrightarrow>
      shown (fire h s) = shown s @
        [\<lparr>ntitle = cb_title c, nbody = cb_body c,
          tag = (if cb_id c = [] then ''activity-reminder'' else cb_id c)\<rparr>]) \<and>
   (num_le (map_option (\<lambda>t. t - now) st) 0 \<longrightarrow>
      shown (scheduleNotification i ti b st now s) = shown s @
        [\<lparr>ntitle = ti, nbody = b, tag = (if i = [] then ''activity-reminder'' else i)\<rparr>]) \<and>
   (\<not> num_le (map_option (\<lambda>t. t - now) st) 0 \<and>
    \<not> num_gt (map_option (\<lambda>t. t - now) st) maxTimeout \<longrightarrow>
      shown (fire (nextTimeoutId s) (scheduleNotification i ti b st now s)) = shown s @
        [\<lparr>ntitle = ti, nbody = b, tag = (if i = [] then ''activity-reminder'' else i)\<rparr>])"
proof (intro conjI impI)
  assume "timeouts s h = Some c"
  then show "shown (fire h s) = shown s @
        [\<lparr>ntitle = cb_title c, nbody = cb_body c,
          tag = (if cb_id c = [] then ''activity-reminder'' else cb_id c)\<rparr>]"
    by (simp add: fire_def showNotification_def Let_def)
next
  assume "num_le (map_option (\<lambda>t. t - now) st) 0"
  then show "shown (scheduleNotification i ti b st now s) = shown s @
        [\<lparr>ntitle = ti, nbody = b, tag = (if i = [] then ''activity-reminder'' else i)\<rparr>]"
    by (simp add: scheduleNotification_def showNotification_def Let_def cancel_fields)
next
  assume "\<not> num_le (map_option (\<lambda>t. t - now) st) 0 \<and>
    \<not> num_gt (map_option (\<lambda>t. t - now) st) maxTimeout"
  then show "shown (fire (nextTimeoutId s) (scheduleNotification i ti b st now s)) = shown s @
        [\<lparr>ntitle = ti, nbody = b, tag = (if i = [] then ''activity-reminder'' else i)\<rparr>]"
    by (simp add: scheduleNotification_def fire_def showNotification_def Let_def cancel_fields)
qed

theorem fired_alert_tag_witness:
  "shown (fire 1 (scheduleNotification '''' ''Walk dog'' ''b'' (Some 5000) 0 initial_sw)) =
     [\<lparr>ntitle = ''Walk dog'', nbody = ''b'', tag = ''activity-reminder''\<rparr>] \<and>
   shown (scheduleNotification ''x'' ''Walk dog'' ''b'' (Some 5000) 6000 initial_sw) =
     [\<lparr>ntitle = ''Walk dog'', nbody = ''b'', tag = ''x''\<rparr>] \<and>
   shown (fire 7 (initial_sw\<lparr>timeouts := [7 \<mapsto>
       \<lparr>delay = Some 1, cb_title = ''t'', cb_body = ''b'', cb_id = ''y''\<rparr>]\<rparr>)) =
     [\<lparr>ntitle = ''t'', nbody = ''b'', tag = ''y''\<rparr>]"
proof -
  have h1: "\<not> num_le (map_option (\<lambda>t. t - 0) (Some 5000)) 0 \<and>
    \<not> num_gt (map_option (\<lambda>t. t - 0) (Some 5000)) maxTimeout"
    by (simp add: num_le_def num_gt_def maxTimeout_def)
  have h2: "num_le (map_option (\<lambda>t. t - 6000) (Some 5000)) 0"
    by (simp add: num_le_def)
  have h3: "timeouts (initial_sw\<lparr>timeouts := [7 \<mapsto>
       \<lparr>delay = Some 1, cb_title = ''t'', cb_body = ''b'', cb_id = ''y''\<rparr>]\<rparr>) 7 =
       Some \<lparr>delay = Some 1, cb_title = ''t'', cb_body = ''b'', cb_id = ''y''\<rparr>"
    by simp
  from fired_alert_tag [of initial_sw 0 _ 0 "Some 5000" "''''" "''Walk dog''" "''b''"] h1
  have a: "shown (fire 1 (scheduleNotification '''' ''Walk dog'' ''b'' (Some 5000) 0 initial_sw)) =
     [\<lparr>ntitle = ''Walk dog'', nbody = ''b'', tag = ''activity-reminder''\<rparr>]"
    by (simp add: initial_sw_def)
  from fired_alert_tag [of initial_sw 0 _ 6000 "Some 5000" "''x''" "''Walk dog''" "''b''"] h2
  have b: "shown (scheduleNotification ''x'' ''Walk dog'' ''b'' (Some 5000) 6000 initial_sw) =
     [\<lparr>ntitle = ''Walk dog'', nbody = ''b'', tag = ''x''\<rparr>]"
    by (simp add: initial_sw_def)
  from fired_alert_tag [of "initial_sw\<lparr>timeouts := [7 \<mapsto>
       \<lparr>delay = Some 1, cb_title = ''t'', cb_body = ''b'', cb_id = ''y''\<rparr>]\<rparr>" 7
       "\<lparr>delay = Some 1, cb_title = ''t'', cb_body = ''b'', cb_id = ''y''\<rparr>"] h3
  have c: "shown (fire 7 (initial_sw\<lparr>timeouts := [7 \<mapsto>
       \<lparr>delay = Some 1, cb_title = ''t'', cb_body = ''b'', cb_id = ''y''\<rparr>]\<rparr>)) =
     [\<lparr>ntitle = ''t'', nbody = ''b'', tag = ''y''\<rparr>]"
    by (simp add: initial_sw_def)
  from a b c show ?thesis by simp
qed

section \<open>The date returned by the parser\<close>

text \<open>
  The facts with \<open>fixedZone\<close> hold in the zones whose offset never changes; the facts with
  \<open>newYork_2026\<close> evaluate the parser around a change of offset.
\<close>

lemma setDate_next_eq: "setDate_next (fixedZone tz) d = d + msPerDay"
proof -
  have "(d + tz) div msPerDay * msPerDay + (d + tz) mod msPerDay = d + tz" by simp
  then show ?thesis
    by (simp add: setDate_next_def LocalTime_fixed UTC_fixed MakeDate_def Day_def Let_def algebra_simps)
qed

lemma setHours_ge:
  assumes "0 \<le> h" "0 \<le> m"
  shows "Day (now + tz) * msPerDay - tz \<le> setHours (fixedZone tz) h m 0 0 now"
proof -
  have "0 \<le> h * msPerHour + m * msPerMinute"
    using assms by (simp add: msPerHour_def msPerMinute_def)
  then show ?thesis
    by (simp add: setHours_def LocalTime_fixed UTC_fixed MakeDate_def MakeTime_def Let_def)
qed

lemma roll_forward_future:
  assumes "0 \<le> h" "0 \<le> m"
  shows "now < setDate_next (fixedZone tz) (setHours (fixedZone tz) h m 0 0 now)"
proof -
  have "now + tz < Day (now + tz) * msPerDay + msPerDay" using Day_bounds [of "now + tz"] by simp
  with setHours_ge [OF assms, of now tz] show ?thesis by (simp add: setDate_next_eq)
qed

lemma invalidTime_iff:
  "invalidTime hm \<longleftrightarrow>
     \<not> (\<exists>h m. hm = (Some h, Some m) \<and> 0 \<le> h \<and> h \<le> 23 \<and> 0 \<le> m \<and> m \<le> 59)"
  by (cases hm) (auto simp: invalidTime_def isNaN_def num_lt_def num_gt_def split: option.splits)

lemma parse_future_part000: "now < fst (parseTimeToDate_part000 (fixedZone tz) now timeStr)"
proof (cases "invalidTime (hoursMinutes_part000 timeStr)")
  case True
  then show ?thesis by (simp add: parseTimeToDate_part000_def fallback_eq)
next
  case False
  then obtain h m where hm: "hoursMinutes_part000 timeStr = (Some h, Some m)" "0 \<le> h" "0 \<le> m"
    unfolding invalidTime_iff by blast
  show ?thesis
    using False roll_forward_future [OF hm(2,3), of now tz]
    by (simp add: parseTimeToDate_part000_def Let_def hm(1))
qed

lemma parse_future_part001: "now < fst (parseTimeToDate_part001 (fixedZone tz) now timeStr)"
proof (cases "invalidTime (hoursMinutes_part001 timeStr)")
  case True
  then show ?thesis by (simp add: parseTimeToDate_part001_def fallback_eq)
next
  case False
  then obtain h m where hm: "hoursMinutes_part001 timeStr = (Some h, Some m)" "0 \<le> h" "0 \<le> m"
    unfolding invalidTime_iff by blast
  show ?thesis
    using False roll_forward_future [OF hm(2,3), of now tz]
    by (simp add: parseTimeToDate_part001_def Let_def hm(1))
qed

lemma parse_value_part000:
  "fst (parseTimeToDate_part000 (fixedZone tz) now timeStr) =
     (if invalidTime (hoursMinutes_part000 timeStr) then now + 60000
      else if setHours (fixedZone tz) (the (fst (hoursMinutes_part000 timeStr)))
                (the (snd (hoursMinutes_part000 timeStr))) 0 0 now \<le> now
      then setHours (fixedZone tz) (the (fst (hoursMinutes_part000 timeStr)))
                (the (snd (hoursMinutes_part000 timeStr))) 0 0 now + msPerDay
      else setHours (fixedZone tz) (the (fst (hoursMinutes_part000 timeStr)))
                (the (snd (hoursMinutes_part000 timeStr))) 0 0 now)"
  by (simp add: parseTimeToDate_part000_def fallback_eq setDate_next_eq Let_def)

lemma parse_value_part001:
  "fst (parseTimeToDate_part001 (fixedZone tz) now timeStr) =
     (if invalidTime (hoursMinutes_part001 timeStr) then now + 60000
      else if setHours (fixedZone tz) (the (fst (hoursMinutes_part001 timeStr)))
                (the (snd (hoursMinutes_part001 timeStr))) 0 0 now \<le> now
      then setHours (fixedZone tz) (the (fst (hoursMinutes_part001 timeStr)))
                (the (snd (hoursMinutes_part001 timeStr))) 0 0 now + msPerDay
      else setHours (fixedZone tz) (the (fst (hoursMinutes_part001 timeStr)))
                (the (snd (hoursMinutes_part001 timeStr))) 0 0 now)"
  by (simp add: parseTimeToDate_part001_def fallback_eq setDate_next_eq Let_def)

text \<open>
  In a zone whose offset never changes, the date the parser returns is strictly later than
  \<open>now\<close>, in both versions: on a validation failure it is \<open>now\<close> plus one minute;
  otherwise it is the parsed time of day on the local day of \<open>now\<close>, moved one day ahead if
  that is not strictly after \<open>now\<close>.
\<close>

lemma parsed_time_future_fixed_zone:
  "now < fst (parseTimeToDate_part000 (fixedZone tz) now timeStr) \<and>
   now < fst (parseTimeToDate_part001 (fixedZone tz) now timeStr) \<and>
   fst (parseTimeToDate_part000 (fixedZone tz) now timeStr) =
     (if invalidTime (hoursMinutes_part000 timeStr) then now + 60000
      else if setHours (fixedZone tz) (the (fst (hoursMinutes_part000 timeStr)))
                (the (snd (hoursMinutes_part000 timeStr))) 0 0 now \<le> now
      then setHours (fixedZone tz) (the (fst (hoursMinutes_part000 timeStr)))
                (the (snd (hoursMinutes_part000 timeStr))) 0 0 now + msPerDay
      else setHours (fixedZone tz) (the (fst (hoursMinutes_part000 timeStr)))
                (the (snd (hoursMinutes_part000 timeStr))) 0 0 now) \<and>
   fst (parseTimeToDate_part001 (fixedZone tz) now timeStr) =
     (if invalidTime (hoursMinutes_part001 timeStr) then now + 60000
      else if setHours (fixedZone tz) (the (fst (hoursMinutes_part001 timeStr)))
                (the (snd (hoursMinutes_part001 timeStr))) 0 0 now \<le> now
      then setHours (fixedZone tz) (the (fst (hoursMinutes_part001 timeStr)))
                (the (snd (hoursMinutes_part001 timeStr))) 0 0 now + msPerDay
      else setHours (fixedZone tz) (the (fst (hoursMinutes_part001 timeStr)))
                (the (snd (hoursMinutes_part001 timeStr))) 0 0 now)"
  using parse_future_part000 [of now tz timeStr] parse_future_part001 [of now tz timeStr]
    parse_value_part000 [of tz now timeStr] parse_value_part001 [of tz now timeStr]
  by blast

lemma hm_0800: "hoursMinutes_part000 ''8:00'' = (Some 8, Some 0)" by code_simp
lemma hm1_0800: "hoursMinutes_part001 ''8:00'' = (Some 8, Some 0)" by code_simp
lemma hm_2599: "hoursMinutes_part000 ''25:99'' = (Some 25, Some 99)" by code_simp
lemma hm1_2599: "hoursMinutes_part001 ''25:99'' = (Some 25, Some 99)" by code_simp
lemma trim_2599: "trim ''25:99'' = ''25:99''" by code_simp

text \<open>A no-break space around the input is stripped like a space.\<close>

lemma no_break_space_stripped:
  "hoursMinutes_part000 (CHR 0xA0 # ''7:30'') = (Some 7, Some 30) \<and>
   hoursMinutes_part001 (CHR 0xA0 # ''7:30'') = (Some 7, Some 30) \<and>
   trim (''25:99'' @ [CHR 0xA0]) = ''25:99''"
  by code_simp

text \<open>
  Across a change of offset the parser keeps the local time of day, not the distance in
  milliseconds. At 2026-03-07, 08:00 in New York, the input \<^verbatim>\<open>8:00\<close> is moved to 08:00 of
  the next day, which is 23 hours later, since daylight saving time starts in between.
\<close>

lemma roll_forward_across_offset_change:
  "parseTimeToDate_part001 newYork_2026 1772888400000 ''8:00'' = (1772971200000, []) \<and>
   (1772971200000::int) = 1772888400000 + 23 * msPerHour"
  by (simp add: parseTimeToDate_part001_def hm1_0800 invalidTime_def isNaN_def num_lt_def
      num_gt_def setHours_def setDate_next_def LocalTime_def UTC_def LocalTZA_def
      newYork_2026_def MakeDate_def MakeTime_def Day_def msPerDay_def msPerHour_def
      msPerMinute_def msPerSecond_def Let_def)

lemma fallback_newYork_repeated_hour: "fallback newYork_2026 1793514600000 = 1793511060000"
  by (simp add: fallback_local LocalTime_def UTC_def LocalTZA_def newYork_2026_def)

text \<open>
  Claim C5 fails on the code in the hour that the end of daylight saving time repeats. At
  2026-11-01T06:30Z in New York the local time is 01:30 for the second time; for the input
  \<^verbatim>\<open>25:99\<close> the fallback sets the minutes of the local time to 31, the local time 01:31 is
  read with the offset before the change, and the date returned is 59 minutes before
  \<open>now\<close>, in both versions. The claim asks for a date strictly later than \<open>now\<close>.
\<close>

theorem fallback_precedes_now_in_repeated_hour:
  "LocalTZA newYork_2026 1793514600000 True = - 18000000 \<and>
   getHours newYork_2026 1793514600000 = 1 \<and>
   getMinutes newYork_2026 1793514600000 = 30 \<and>
   invalidTime (hoursMinutes_part000 ''25:99'') \<and>
   invalidTime (hoursMinutes_part001 ''25:99'') \<and>
   parseTimeToDate_part000 newYork_2026 1793514600000 ''25:99'' =
     (1793511060000, [ConsoleError [''Invalid time format:'', ''25:99'']]) \<and>
   parseTimeToDate_part001 newYork_2026 1793514600000 ''25:99'' = (1793511060000, []) \<and>
   (1793511060000::int) = 1793514600000 - 3540000 \<and>
   \<not> (1793514600000::int) < fst (parseTimeToDate_part000 newYork_2026 1793514600000 ''25:99'') \<and>
   \<not> (1793514600000::int) < fst (parseTimeToDate_part001 newYork_2026 1793514600000 ''25:99'')"
proof -
  have z: "LocalTZA newYork_2026 1793514600000 True = - 18000000"
    by (simp add: LocalTZA_def newYork_2026_def)
  have f: "getHours newYork_2026 1793514600000 = 1 \<and> getMinutes newYork_2026 1793514600000 = 30"
    by (simp add: getHours_def getMinutes_def LocalTime_def z HourFromTime_def MinFromTime_def
        msPerHour_def msPerMinute_def)
  have v: "invalidTime (hoursMinutes_part000 ''25:99'') \<and> invalidTime (hoursMinutes_part001 ''25:99'')"
    by (simp add: hm_2599 hm1_2599 invalidTime_def isNaN_def num_lt_def num_gt_def)
  have a: "parseTimeToDate_part000 newYork_2026 1793514600000 ''25:99'' =
     (1793511060000, [ConsoleError [''Invalid time format:'', ''25:99'']])"
    using v by (simp add: parseTimeToDate_part000_def fallback_newYork_repeated_hour trim_2599)
  have b: "parseTimeToDate_part001 newYork_2026 1793514600000 ''25:99'' = (1793511060000, [])"
    using v by (simp add: parseTimeToDate_part001_def fallback_newYork_repeated_hour)
  show ?thesis using z f v by (simp add: a b)
qed

lemma local_fields:
  assumes h: "0 \<le> h" "h \<le> 23" and m: "0 \<le> m" "m \<le> 59"
    and L: "L = D * 86400000 + h * 3600000 + m * 60000"
  shows "HourFromTime L = h" "MinFromTime L = m" "SecFromTime L = 0" "msFromTime L = 0"
proof -
  have "L div 3600000 = D * 24 + h"
    by (rule int_div_pos_eq [where r = "m * 60000"]) (use L m in simp_all)
  moreover have "(D * 24 + h) mod 24 = h"
    by (rule int_mod_pos_eq [where q = D]) (use h in simp_all)
  ultimately show "HourFromTime L = h" by (simp add: HourFromTime_def msPerHour_def)
  have "L div 60000 = D * 1440 + h * 60 + m"
    by (rule int_div_pos_eq [where r = 0]) (use L in simp_all)
  moreover have "(D * 1440 + h * 60 + m) mod 60 = m"
    by (rule int_mod_pos_eq [where q = "D * 24 + h"]) (use m in simp_all)
  ultimately show "MinFromTime L = m" by (simp add: MinFromTime_def msPerMinute_def)
  have "L div 1000 = D * 86400 + h * 3600 + m * 60"
    by (rule int_div_pos_eq [where r = 0]) (use L in simp_all)
  moreover have "(D * 86400 + h * 3600 + m * 60) mod 60 = 0"
    by (rule int_mod_pos_eq [where q = "D * 1440 + h * 60 + m"]) simp_all
  ultimately show "SecFromTime L = 0" by (simp add: SecFromTime_def msPerSecond_def)
  have "L mod 1000 = 0"
    by (rule int_mod_pos_eq [where q = "D * 86400 + h * 3600 + m * 60"]) (use L in simp_all)
  then show "msFromTime L = 0" by (simp add: msFromTime_def msPerSecond_def)
qed

lemma setHours_fields:
  assumes "0 \<le> h" "h \<le> 23" "0 \<le> m" "m \<le> 59"
  shows "getHours (fixedZone tz) (setHours (fixedZone tz) h m 0 0 d) = h \<and> getMinutes (fixedZone tz) (setHours (fixedZone tz) h m 0 0 d) = m \<and>
         getSeconds (fixedZone tz) (setHours (fixedZone tz) h m 0 0 d) = 0 \<and> getMilliseconds (fixedZone tz) (setHours (fixedZone tz) h m 0 0 d) = 0"
proof -
  have L: "LocalTime (fixedZone tz) (setHours (fixedZone tz) h m 0 0 d) = Day (d + tz) * 86400000 + h * 3600000 + m * 60000"
    by (simp add: setHours_def LocalTime_fixed UTC_fixed MakeDate_def MakeTime_def Let_def
        msPerDay_def msPerHour_def msPerMinute_def)
  show ?thesis
    using local_fields [OF assms L]
    by (simp add: getHours_def getMinutes_def getSeconds_def getMilliseconds_def)
qed

lemma setHours_next_fields:
  assumes "0 \<le> h" "h \<le> 23" "0 \<le> m" "m \<le> 59"
  shows "getHours (fixedZone tz) (setHours (fixedZone tz) h m 0 0 d + msPerDay) = h \<and>
         getMinutes (fixedZone tz) (setHours (fixedZone tz) h m 0 0 d + msPerDay) = m \<and>
         getSeconds (fixedZone tz) (setHours (fixedZone tz) h m 0 0 d + msPerDay) = 0 \<and>
         getMilliseconds (fixedZone tz) (setHours (fixedZone tz) h m 0 0 d + msPerDay) = 0"
proof -
  have L: "LocalTime (fixedZone tz) (setHours (fixedZone tz) h m 0 0 d + msPerDay) =
      (Day (d + tz) + 1) * 86400000 + h * 3600000 + m * 60000"
    by (simp add: setHours_def LocalTime_fixed UTC_fixed MakeDate_def MakeTime_def Let_def
        msPerDay_def msPerHour_def msPerMinute_def algebra_simps)
  show ?thesis
    using local_fields [OF assms L]
    by (simp add: getHours_def getMinutes_def getSeconds_def getMilliseconds_def)
qed

lemma parsed_time_of_day_part000:
  assumes "hoursMinutes_part000 timeStr = (Some h, Some m)"
    and "0 \<le> h" "h \<le> 23" "0 \<le> m" "m \<le> 59"
  shows "getHours (fixedZone tz) (fst (parseTimeToDate_part000 (fixedZone tz) now timeStr)) = h \<and>
         getMinutes (fixedZone tz) (fst (parseTimeToDate_part000 (fixedZone tz) now timeStr)) = m \<and>
         getSeconds (fixedZone tz) (fst (parseTimeToDate_part000 (fixedZone tz) now timeStr)) = 0 \<and>
         getMilliseconds (fixedZone tz) (fst (parseTimeToDate_part000 (fixedZone tz) now timeStr)) = 0"
proof -
  have v: "\<not> invalidTime (Some h, Some m)"
    unfolding invalidTime_iff using assms by simp
  show ?thesis
    using setHours_fields [OF assms(2-5), of tz now] setHours_next_fields [OF assms(2-5), of tz now]
    by (simp add: parse_value_part000 v assms(1))
qed

lemma parsed_time_of_day_part001:
  assumes "hoursMinutes_part001 timeStr = (Some h, Some m)"
    and "0 \<le> h" "h \<le> 23" "0 \<le> m" "m \<le> 59"
  shows "getHours (fixedZone tz) (fst (parseTimeToDate_part001 (fixedZone tz) now timeStr)) = h \<and>
         getMinutes (fixedZone tz) (fst (parseTimeToDate_part001 (fixedZone tz) now timeStr)) = m \<and>
         getSeconds (fixedZone tz) (fst (parseTimeToDate_part001 (fixedZone tz) now timeStr)) = 0 \<and>
         getMilliseconds (fixedZone tz) (fst (parseTimeToDate_part001 (fixedZone tz) now timeStr)) = 0"
proof -
  have v: "\<not> invalidTime (Some h, Some m)"
    unfolding invalidTime_iff using assms by simp
  show ?thesis
    using setHours_fields [OF assms(2-5), of tz now] setHours_next_fields [OF assms(2-5), of tz now]
    by (simp add: parse_value_part001 v assms(1))
qed

lemma hm_7x30: "hoursMinutes_part000 ''7x:30'' = (Some 7, Some 30)" by code_simp
lemma hm1_7x30: "hoursMinutes_part001 ''7x:30'' = (Some 7, Some 30)" by code_simp
lemma split_7x30: "split_str CHR '':'' (trim ''7x:30'') = [''7x'', ''30'']" by code_simp
lemma not_digits_7x: "\<not> list_all (isRadixDigit 10) ''7x''" by code_simp

text \<open>
  Claim C9. The validation is lenient: for the input \<^verbatim>\<open>7x:30\<close>, whose first token is not a
  run of digits, the parser does not take the fallback path; both versions return a date
  whose local time is 07:30, built from the leading digits of each token.
\<close>

theorem lenient_validation_7x30:
  "split_str CHR '':'' (trim ''7x:30'') = [''7x'', ''30''] \<and>
   \<not> list_all (isRadixDigit 10) ''7x'' \<and>
   \<not> invalidTime (hoursMinutes_part000 ''7x:30'') \<and>
   \<not> invalidTime (hoursMinutes_part001 ''7x:30'') \<and>
   getHours (fixedZone tz) (fst (parseTimeToDate_part000 (fixedZone tz) now ''7x:30'')) = 7 \<and>
   getMinutes (fixedZone tz) (fst (parseTimeToDate_part000 (fixedZone tz) now ''7x:30'')) = 30 \<and>
   getHours (fixedZone tz) (fst (parseTimeToDate_part001 (fixedZone tz) now ''7x:30'')) = 7 \<and>
   getMinutes (fixedZone tz) (fst (parseTimeToDate_part001 (fixedZone tz) now ''7x:30'')) = 30 \<and>
   snd (parseTimeToDate_part000 (fixedZone tz) now ''7x:30'') \<noteq>
     [ConsoleError [''Invalid time format:'', ''7x:30'']]"
proof -
  have v0: "\<not> invalidTime (hoursMinutes_part000 ''7x:30'')"
    by (simp add: hm_7x30 invalidTime_iff)
  have v1: "\<not> invalidTime (hoursMinutes_part001 ''7x:30'')"
    by (simp add: hm1_7x30 invalidTime_iff)
  have c: "snd (parseTimeToDate_part000 (fixedZone tz) now ''7x:30'') \<noteq>
     [ConsoleError [''Invalid time format:'', ''7x:30'']]"
    using v0 by (simp add: parseTimeToDate_part000_def Let_def)
  show ?thesis
    using split_7x30 not_digits_7x v0 v1 c
      parsed_time_of_day_part000 [OF hm_7x30, of tz now]
      parsed_time_of_day_part001 [OF hm1_7x30, of tz now]
    by simp
qed

theorem lenient_validation_7x30_witness:
  "fst (parseTimeToDate_part000 (fixedZone 0) 0 ''7x:30'') = 27000000 \<and>
   getHours (fixedZone 0) (fst (parseTimeToDate_part000 (fixedZone 0) 0 ''7x:30'')) = 7"
proof -
  have "fst (parseTimeToDate_part000 (fixedZone 0) 0 ''7x:30'') = 27000000"
    by (simp add: parse_value_part000 hm_7x30 invalidTime_iff setHours_def LocalTime_fixed UTC_fixed
      MakeDate_def MakeTime_def Day_def msPerDay_def msPerHour_def msPerMinute_def Let_def)
  with lenient_validation_7x30 [of 0 0] show ?thesis by simp
qed

text \<open>
  Claim C6, as amended. For every input that fails the validation (the hour is not a number
  in \<open>[0, 23]\<close> after normalisation, or the minute is not a number in \<open>[0, 59]\<close>), the
  parser raises nothing (the model is a total function: the source has no \<^verbatim>\<open>throw\<close> and
  calls nothing that throws on a string) and returns the fallback date, which is one minute
  after \<open>now\<close> whenever the local time one minute ahead is read with the offset in force
  at \<open>now\<close>, and so in every zone whose offset never changes. The version of \<^verbatim>\<open>part_000\<close>
  reports the condition with \<^verbatim>\<open>console.error\<close> and the trimmed input; the version of
  \<^verbatim>\<open>part_001\<close> writes nothing to the console.
\<close>

theorem invalid_time_falls_back:
  "(\<not> (\<exists>h m. hoursMinutes_part000 timeStr = (Some h, Some m) \<and>
            0 \<le> h \<and> h \<le> 23 \<and> 0 \<le> m \<and> m \<le> 59) \<longrightarrow>
      parseTimeToDate_part000 z now timeStr =
        (fallback z now, [ConsoleError [''Invalid time format:'', trim timeStr]])) \<and>
   (\<not> (\<exists>h m. hoursMinutes_part001 timeStr = (Some h, Some m) \<and>
            0 \<le> h \<and> h \<le> 23 \<and> 0 \<le> m \<and> m \<le> 59) \<longrightarrow>
      parseTimeToDate_part001 z now timeStr = (fallback z now, [])) \<and>
   (LocalTZA z (LocalTime z now + 60000) False = LocalTZA z now True \<longrightarrow>
      fallback z now = now + 60000) \<and>
   fallback (fixedZone tz) now = now + 60000"
  using fallback_same_offset [of z now]
  by (simp add: parseTimeToDate_part000_def parseTimeToDate_part001_def invalidTime_iff
      fallback_eq)

text \<open>
  The claim C6 as stated fails. In \<^verbatim>\<open>part_001\<close> nothing is reported: for \<^verbatim>\<open>25:99\<close> the
  fallback is returned and the console stays empty. And the fallback is not always one
  minute after \<open>now\<close>: at 2026-11-01T06:30Z in New York it is 59 minutes before.
\<close>

theorem invalid_time_no_warning_counterexample:
  "hoursMinutes_part001 ''25:99'' = (Some 25, Some 99) \<and>
   invalidTime (hoursMinutes_part001 ''25:99'') \<and>
   parseTimeToDate_part001 (fixedZone 0) 0 ''25:99'' = (60000, []) \<and>
   parseTimeToDate_part001 newYork_2026 1793514600000 ''25:99'' \<noteq>
     (1793514600000 + 60000, [])"
  by (simp add: hm1_2599 parseTimeToDate_part001_def invalidTime_iff fallback_eq
      fallback_newYork_repeated_hour)

theorem invalid_time_falls_back_witness:
  "parseTimeToDate_part000 (fixedZone 0) 1000 ''25:99'' =
     (61000, [ConsoleError [''Invalid time format:'', ''25:99'']]) \<and>
   parseTimeToDate_part001 (fixedZone 0) 1000 ''25:99'' = (61000, []) \<and>
   LocalTZA newYork_2026 (LocalTime newYork_2026 1793518200000 + 60000) False =
     LocalTZA newYork_2026 1793518200000 True \<and>
   parseTimeToDate_part001 newYork_2026 1793518200000 ''25:99'' = (1793518260000, [])"
proof -
  have c0: "LocalTZA (fixedZone 0) (LocalTime (fixedZone 0) 1000 + 60000) False =
      LocalTZA (fixedZone 0) 1000 True"
    by (simp add: LocalTZA_def fixedZone_def)
  have c1: "LocalTZA newYork_2026 (LocalTime newYork_2026 1793518200000 + 60000) False =
      LocalTZA newYork_2026 1793518200000 True"
    by (simp add: LocalTZA_def LocalTime_def newYork_2026_def)
  from invalid_time_falls_back [of "''25:99''" "fixedZone 0" 1000 0]
    invalid_time_falls_back [of "''25:99''" newYork_2026 1793518200000 0] c0 c1
  show ?thesis by (simp add: hm_2599 hm1_2599 trim_2599)
qed

lemma hm_730Pm: "hoursMinutes_part000 ''7:30 Pm'' = (Some 7, Some 30)" by code_simp
lemma hm1_730Pm: "hoursMinutes_part001 ''7:30 Pm'' = (Some 19, Some 30)" by code_simp
lemma hm_730PM: "hoursMinutes_part000 ''7:30 PM'' = (Some 19, Some 30)" by code_simp

text \<open>
  Claim C4 fails in \<^verbatim>\<open>part_000\<close> for a marker in mixed case: \<^verbatim>\<open>7:30 Pm\<close> is a valid 12-hour
  input with a case-insensitive marker, the claim gives hour 19, and the parser of
  \<^verbatim>\<open>part_000\<close> gives hour 7, because its test for the 12-hour branch looks for \<^verbatim>\<open>AM\<close>,
  \<^verbatim>\<open>PM\<close>, \<^verbatim>\<open>am\<close> and \<^verbatim>\<open>pm\<close> only. The parser of \<^verbatim>\<open>part_001\<close> lowers the string first and
  gives 19.
\<close>

theorem mixed_case_meridiem_part000:
  "hoursMinutes_part000 ''7:30 Pm'' = (Some 7, Some 30) \<and>
   hoursMinutes_part001 ''7:30 Pm'' = (Some 19, Some 30) \<and>
   hoursMinutes_part000 ''7:30 PM'' = (Some 19, Some 30) \<and>
   getHours (fixedZone tz) (fst (parseTimeToDate_part000 (fixedZone tz) now ''7:30 Pm'')) = 7 \<and>
   getHours (fixedZone tz) (fst (parseTimeToDate_part001 (fixedZone tz) now ''7:30 Pm'')) = 19"
  using parsed_time_of_day_part000 [OF hm_730Pm, of tz now]
    parsed_time_of_day_part001 [OF hm1_730Pm, of tz now]
  by (simp add: hm_730Pm hm1_730Pm hm_730PM)

section \<open>Requesting permission while it is denied\<close>

lemma initialize_no_prompt:
  "initialize_part000 p m = Some (ok, m1, es) \<Longrightarrow> Prompt \<notin> set es"
  by (auto simp: initialize_part000_def Let_def split: if_splits option.splits)

lemma initialize_part001_eq:
  "\<not> isInitialized m \<Longrightarrow> initialize_part001 p m = initialize_part000 p m"
  by (simp add: initialize_part001_def initialize_part000_def)

lemma guarded_initialize_eq:
  "(if \<not> isInitialized m then initialize_part001 p m else x) =
   (if \<not> isInitialized m then initialize_part000 p m else x)"
  by (simp add: initialize_part001_eq)

lemma requestPermission_denied_part000:
  assumes "permission p = Denied"
  shows "requestPermission_part000 p m =
     (if \<not> isSupported m then Some (False, m, [Alert UnsupportedBrowser])
      else (case (if \<not> isInitialized m then initialize_part000 p m else Some (True, m, [])) of
              None \<Rightarrow> None
            | Some (ok, m1, es) \<Rightarrow>
                Some (False, m1,
                  es @ [Alert (if ok then NotificationsBlocked else InitializationFailed)])))"
  using assms
  by (simp add: requestPermission_part000_def split: option.splits prod.splits)

lemma requestPermission_denied_part001:
  assumes "permission p = Denied"
  shows "requestPermission_part001 p m =
     (if \<not> isSupported m then Some (False, m, [Alert UnsupportedBrowser])
      else (case (if \<not> isInitialized m then initialize_part000 p m else Some (True, m, [])) of
              None \<Rightarrow> None
            | Some (ok, m1, es) \<Rightarrow>
                Some (False, m1,
                  es @ [Alert (if ok then NotificationsBlocked else InitializationFailed)])))"
  using assms
  by (simp add: requestPermission_part001_def guarded_initialize_eq
      split: option.splits prod.splits)

lemma denied_result_no_prompt:
  assumes "(if \<not> isSupported m then Some (False, m, [Alert UnsupportedBrowser])
      else (case (if \<not> isInitialized m then initialize_part000 p m else Some (True, m, [])) of
              None \<Rightarrow> None
            | Some (ok, m1, es) \<Rightarrow>
                Some (False, m1,
                  es @ [Alert (if ok then NotificationsBlocked else InitializationFailed)]))) =
      Some r"
  shows "\<not> fst r \<and> Prompt \<notin> set (snd (snd r))"
proof (cases "isSupported m")
  case False
  with assms show ?thesis by auto
next
  case True
  show ?thesis
  proof (cases "isInitialized m")
    case True
    with assms \<open>isSupported m\<close> show ?thesis by auto
  next
    case False
    with assms \<open>isSupported m\<close> obtain ok m1 es where
      i: "initialize_part000 p m = Some (ok, m1, es)"
      and r: "r = (False, m1, es @ [Alert (if ok then NotificationsBlocked else InitializationFailed)])"
      by (auto split: option.splits)
    from initialize_no_prompt [OF i] r show ?thesis by simp
  qed
qed

text \<open>
  Claim C7, as amended. When \<^verbatim>\<open>requestPermission\<close> is called while the permission is
  \<^verbatim>\<open>denied\<close>, no prompt is issued and a call that returns returns failure, in both
  versions. The alert is the one with the numbered steps when the manager is supported and
  initialised (or its initialisation succeeds in the call); an unsupported manager gets the
  unsupported-browser alert, a failed initialisation the initialisation-failed alert, and
  an initialisation that never settles never returns.
\<close>

theorem denied_permission_fails_without_prompt:
  assumes "permission p = Denied"
  shows "requestPermission_part000 p m =
           (if \<not> isSupported m then Some (False, m, [Alert UnsupportedBrowser])
            else (case (if \<not> isInitialized m then initialize_part000 p m else Some (True, m, [])) of
                    None \<Rightarrow> None
                  | Some (ok, m1, es) \<Rightarrow>
                      Some (False, m1,
                        es @ [Alert (if ok then NotificationsBlocked else InitializationFailed)]))) \<and>
         requestPermission_part001 p m = requestPermission_part000 p m \<and>
         (\<forall>r. requestPermission_part000 p m = Some r \<longrightarrow>
              \<not> fst r \<and> Prompt \<notin> set (snd (snd r))) \<and>
         (isSupported m \<and> isInitialized m \<longrightarrow>
            requestPermission_part000 p m = Some (False, m, [Alert NotificationsBlocked]))"
proof -
  note a = requestPermission_denied_part000 [OF assms, of m]
  note b = requestPermission_denied_part001 [OF assms, of m]
  have c: "\<forall>r. requestPermission_part000 p m = Some r \<longrightarrow>
              \<not> fst r \<and> Prompt \<notin> set (snd (snd r))"
    unfolding a using denied_result_no_prompt [of m p] by blast
  have d: "isSupported m \<and> isInitialized m \<longrightarrow>
            requestPermission_part000 p m = Some (False, m, [Alert NotificationsBlocked])"
    unfolding a by simp
  from a b c d show ?thesis by presburger
qed

text \<open>
  The claim C7 as stated fails: with the permission denied, an unsupported manager is told
  that the browser is not supported, a manager whose registration fails is told that the
  initialisation failed, and a manager whose installing worker never activates is told
  nothing.
\<close>

theorem denied_permission_counterexample:
  "requestPermission_part001
     \<lparr>permission = Denied, registerResult = None, activates = True, readyResolves = True,
       promptResult = None\<rparr>
     \<lparr>registration = None, isSupported = False, isInitialized = False\<rparr> =
   Some (False, \<lparr>registration = None, isSupported = False, isInitialized = False\<rparr>,
         [Alert UnsupportedBrowser]) \<and>
   requestPermission_part000
     \<lparr>permission = Denied, registerResult = None, activates = True, readyResolves = True,
       promptResult = None\<rparr>
     \<lparr>registration = None, isSupported = True, isInitialized = False\<rparr> =
   Some (False, \<lparr>registration = None, isSupported = True, isInitialized = False\<rparr>,
         [Alert InitializationFailed]) \<and>
   requestPermission_part000
     \<lparr>permission = Denied,
       registerResult = Some \<lparr>installing = True, waiting = False, active = False\<rparr>,
       activates = False, readyResolves = True, promptResult = None\<rparr>
     \<lparr>registration = None, isSupported = True, isInitialized = False\<rparr> = None"
  by (simp add: requestPermission_part001_def requestPermission_part000_def
      initialize_part000_def initialize_part001_def)

theorem denied_permission_fails_without_prompt_witness:
  "requestPermission_part000 (granted_platform\<lparr>permission := Denied\<rparr>) ready_manager =
     Some (False, ready_manager, [Alert NotificationsBlocked]) \<and>
   requestPermission_part001 (granted_platform\<lparr>permission := Denied\<rparr>) ready_manager =
     Some (False, ready_manager, [Alert NotificationsBlocked])"
proof -
  have h: "permission (granted_platform\<lparr>permission := Denied\<rparr>) = Denied" by simp
  from denied_permission_fails_without_prompt [OF h, of ready_manager]
  show ?thesis by (simp add: ready_manager_def)
qed

section \<open>The 12-hour inputs\<close>

text \<open>
  A 12-hour input is a run of digits, optionally a colon and a run of digits, any number
  of spaces, and a two-letter marker. For these the parser of \<^verbatim>\<open>part_001\<close> computes the
  hour that the 12-hour normalisation asks for, whatever the case of the marker; the parser
  of \<^verbatim>\<open>part_000\<close> does so for the markers \<^verbatim>\<open>AM\<close>, \<^verbatim>\<open>PM\<close>, \<^verbatim>\<open>am\<close> and \<^verbatim>\<open>pm\<close>. The
  hours and minutes are stated for every zone; the fields of the returned date are stated
  for the zones whose offset never changes.
\<close>

lemma isRadixDigit_10: "isRadixDigit 10 c \<longleftrightarrow> 48 \<le> (of_char c :: nat) \<and> (of_char c :: nat) \<le> 57"
  by (auto simp: isRadixDigit_def digitValue_def Let_def)

lemma digit_below_65: "isRadixDigit 10 c \<Longrightarrow> (of_char c :: nat) < 65"
  by (simp add: isRadixDigit_10)

lemma digit_not_space: "isRadixDigit 10 c \<Longrightarrow> \<not> isWhiteSpace c"
  by (auto simp: isRadixDigit_10 isWhiteSpace_def)

lemma digit_not_colon: "isRadixDigit 10 c \<Longrightarrow> c \<noteq> CHR '':''"
  by (auto simp: isRadixDigit_10)

lemma digit_not_sign_x:
  "isRadixDigit 10 c \<Longrightarrow> c \<noteq> CHR ''-'' \<and> c \<noteq> CHR ''+'' \<and> c \<noteq> CHR ''x'' \<and> c \<noteq> CHR ''X''"
  by (auto simp: isRadixDigit_10)

lemma below_65_lower: "(of_char c :: nat) < 65 \<Longrightarrow> toLowerChar c = c"
  by (simp add: toLowerChar_def Let_def)

lemma below_65_not_letter:
  "(of_char c :: nat) < 65 \<Longrightarrow> c \<noteq> CHR ''p'' \<and> c \<noteq> CHR ''a'' \<and> \<not> isMeridiem c d"
  by (auto simp: isMeridiem_def)

lemma lower_A: "toLowerChar CHR ''A'' = CHR ''a''" by code_simp
lemma lower_P: "toLowerChar CHR ''P'' = CHR ''p''" by code_simp
lemma lower_M: "toLowerChar CHR ''M'' = CHR ''m''" by code_simp
lemma lower_a: "toLowerChar CHR ''a'' = CHR ''a''" by code_simp
lemma lower_p: "toLowerChar CHR ''p'' = CHR ''p''" by code_simp
lemma lower_m: "toLowerChar CHR ''m'' = CHR ''m''" by code_simp

lemma meridiem_lower:
  assumes "isMeridiem a b"
  shows "toLowerChar b = CHR ''m''"
    and "toLowerChar a = (if a = CHR ''p'' \<or> a = CHR ''P'' then CHR ''p'' else CHR ''a'')"
  using assms by (auto simp: isMeridiem_def lower_A lower_P lower_M lower_a lower_p lower_m)

lemma meridiem_not_space: "isMeridiem a b \<Longrightarrow> \<not> isWhiteSpace b"
  by (auto simp: isMeridiem_def isWhiteSpace_def)

lemma dropWhile_hd: "s \<noteq> [] \<Longrightarrow> \<not> P (hd s) \<Longrightarrow> dropWhile P s = s"
  by (cases s) simp_all

lemma trim_keep:
  assumes "s \<noteq> []" "\<not> isWhiteSpace (hd s)" "\<not> isWhiteSpace (last s)"
  shows "trim s = s"
proof -
  have "dropWhile isWhiteSpace (rev s) = rev s"
    using assms by (intro dropWhile_hd) (simp_all add: hd_rev)
  then show ?thesis using assms by (simp add: trim_def dropWhile_hd)
qed

lemma trim_trailing_spaces:
  assumes "s \<noteq> []" "\<not> isWhiteSpace (hd s)" "\<not> isWhiteSpace (last s)"
  shows "trim (s @ replicate k CHR '' '') = s"
proof -
  have sp: "isWhiteSpace CHR '' ''" by (simp add: isWhiteSpace_def)
  have a: "dropWhile isWhiteSpace (s @ replicate k CHR '' '') = s @ replicate k CHR '' ''"
    using assms by (intro dropWhile_hd) simp_all
  have "dropWhile isWhiteSpace (replicate k CHR '' '' @ rev s) = dropWhile isWhiteSpace (rev s)"
    using sp by (induction k) simp_all
  also have "\<dots> = rev s"
    using assms by (intro dropWhile_hd) (simp_all add: hd_rev)
  finally show ?thesis by (simp add: trim_def a)
qed

lemma includes_append: "includes_str ys sub \<Longrightarrow> includes_str (xs @ ys) sub"
  by (induction xs) simp_all

lemma includes_pm_only_after:
  assumes "\<forall>c \<in> set xs. c \<noteq> CHR ''p''"
  shows "\<not> includes_str (xs @ ''am'') ''pm''"
  using assms by (induction xs) simp_all

lemma lower_prefix:
  assumes "\<forall>c \<in> set xs. (of_char c :: nat) < 65"
  shows "toLowerCase xs = xs"
  using assms by (induction xs) (simp_all add: toLowerCase_def below_65_lower)

lemma replace_meridiem_suffix:
  assumes "\<forall>c \<in> set xs. (of_char c :: nat) < 65" and "isMeridiem a b"
  shows "replace_meridiem (xs @ [a, b]) = xs"
  using assms
proof (induction xs)
  case Nil
  then show ?case by simp
next
  case (Cons c cs)
  obtain d ds where d: "cs @ [a, b] = d # ds" by (cases cs) simp_all
  from Cons.prems have "\<not> isMeridiem c d" by (simp add: below_65_not_letter)
  then have "replace_meridiem ((c # cs) @ [a, b]) = c # replace_meridiem (cs @ [a, b])"
    by (simp add: d)
  with Cons show ?case by simp
qed

lemma split_no_separator: "d \<notin> set xs \<Longrightarrow> split_str d xs = [xs]"
  by (induction xs) auto

lemma split_at_separator:
  "d \<notin> set xs \<Longrightarrow> split_str d (xs @ d # ys) = xs # split_str d ys"
  by (induction xs) auto

lemma parseInt_digits:
  assumes "hs \<noteq> []" and "list_all (isRadixDigit 10) hs"
  shows "parseInt hs = Some (digitsValue 10 hs)"
proof -
  obtain c cs where hs: "hs = c # cs" using assms(1) by (cases hs) simp_all
  have c: "isRadixDigit 10 c" and cs: "list_all (isRadixDigit 10) cs"
    using assms(2) by (simp_all add: hs)
  have nohex: "(case hs of a # b # r \<Rightarrow> a = CHR ''0'' \<and> (b = CHR ''x'' \<or> b = CHR ''X'') | _ \<Rightarrow> False)
      = False"
  proof (cases cs)
    case Nil
    then show ?thesis by (simp add: hs)
  next
    case (Cons b r)
    with cs have "isRadixDigit 10 b" by simp
    then show ?thesis using digit_not_sign_x [of b] by (simp add: hs Cons)
  qed
  have tw: "takeWhile (isRadixDigit 10) hs = hs"
    using assms(2) by (simp add: list_all_iff)
  have dw: "dropWhile isWhiteSpace hs = hs"
    using c by (simp add: hs digit_not_space)
  show ?thesis
    unfolding parseInt_def dw Let_def
    using digit_not_sign_x [OF c] nohex tw assms(1)
    by (simp add: hs)
qed

lemma isPM_of_marker:
  assumes pre: "\<forall>c \<in> set pre. (of_char c :: nat) < 65" and mer: "isMeridiem a b"
  shows "includes_str (toLowerCase (pre @ [a, b])) ''pm'' \<longleftrightarrow> a = CHR ''p'' \<or> a = CHR ''P''"
    and "includes_str (toLowerCase (pre @ [a, b])) ''am'' \<or>
         includes_str (toLowerCase (pre @ [a, b])) ''pm''"
proof -
  have low: "toLowerCase (pre @ [a, b]) =
      pre @ [if a = CHR ''p'' \<or> a = CHR ''P'' then CHR ''p'' else CHR ''a'', CHR ''m'']"
    using lower_prefix [OF pre] meridiem_lower [OF mer] by (simp add: toLowerCase_def)
  have nop: "\<forall>c \<in> set pre. c \<noteq> CHR ''p''" using pre below_65_not_letter by blast
  show "includes_str (toLowerCase (pre @ [a, b])) ''pm'' \<longleftrightarrow> a = CHR ''p'' \<or> a = CHR ''P''"
  proof (cases "a = CHR ''p'' \<or> a = CHR ''P''")
    case True
    have "includes_str (pre @ ''pm'') ''pm''" by (rule includes_append) simp
    with True show ?thesis by (simp add: low)
  next
    case False
    with includes_pm_only_after [OF nop] show ?thesis by (simp add: low)
  qed
  show "includes_str (toLowerCase (pre @ [a, b])) ''am'' \<or>
        includes_str (toLowerCase (pre @ [a, b])) ''pm''"
  proof (cases "a = CHR ''p'' \<or> a = CHR ''P''")
    case True
    have "includes_str (pre @ ''pm'') ''pm''" by (rule includes_append) simp
    with True show ?thesis by (simp add: low)
  next
    case False
    have "includes_str (pre @ ''am'') ''am''" by (rule includes_append) simp
    with False show ?thesis by (simp add: low)
  qed
qed

lemma digits_below_65:
  "list_all (isRadixDigit 10) hs \<Longrightarrow> \<forall>c \<in> set hs. (of_char c :: nat) < 65"
  by (simp add: list_all_iff digit_below_65)

lemma digits_no_colon: "list_all (isRadixDigit 10) hs \<Longrightarrow> CHR '':'' \<notin> set hs"
  using digit_not_colon by (auto simp: list_all_iff)

lemma digits_ends:
  assumes "hs \<noteq> []" "list_all (isRadixDigit 10) hs"
  shows "\<not> isWhiteSpace (hd hs)" "\<not> isWhiteSpace (last hs)"
  using assms digit_not_space by (auto simp: list_all_iff)

lemma hoursMinutes12_ok:
  assumes hs: "hs \<noteq> []" "list_all (isRadixDigit 10) hs"
    and mer: "isMeridiem a b"
    and rest: "rest = [] \<or> rest = CHR '':'' # ms \<and> ms \<noteq> [] \<and> list_all (isRadixDigit 10) ms"
  shows "hoursMinutes12 (hs @ rest @ replicate k CHR '' '' @ [a, b]) =
           (Some (spec_hour24 (a = CHR ''p'' \<or> a = CHR ''P'') (digitsValue 10 hs)),
            Some (if rest = [] then 0 else digitsValue 10 ms))"
proof -
  let ?time = "hs @ rest"
  let ?pre = "?time @ replicate k CHR '' ''"
  have s: "hs @ rest @ replicate k CHR '' '' @ [a, b] = ?pre @ [a, b]" by simp
  have rest65: "\<forall>c \<in> set rest. (of_char c :: nat) < 65"
    using rest digits_below_65 [of ms] by auto
  have pre: "\<forall>c \<in> set ?pre. (of_char c :: nat) < 65"
    using digits_below_65 [OF hs(2)] rest65 by auto
  have isPM: "includes_str (toLowerCase (?pre @ [a, b])) ''pm'' \<longleftrightarrow> a = CHR ''p'' \<or> a = CHR ''P''"
    by (rule isPM_of_marker(1) [OF pre mer])
  have clean: "replace_meridiem (?pre @ [a, b]) = ?pre"
    by (rule replace_meridiem_suffix [OF pre mer])
  have ends: "?time \<noteq> []" "\<not> isWhiteSpace (hd ?time)" "\<not> isWhiteSpace (last ?time)"
    using hs rest digits_ends [OF hs] digits_ends [of ms] by auto
  have trimmed: "trim ?pre = ?time" by (rule trim_trailing_spaces [OF ends])
  have parts: "split_str CHR '':'' ?time = (if rest = [] then [hs] else [hs, ms])"
    using rest split_no_separator [OF digits_no_colon [OF hs(2)]]
      split_at_separator [OF digits_no_colon [OF hs(2)], of ms]
      split_no_separator [OF digits_no_colon [of ms]]
    by auto
  have hours: "hoursOf (split_str CHR '':'' ?time) = Some (digitsValue 10 hs)"
    by (simp add: parts hoursOf_def parseInt_digits [OF hs])
  have minutes: "minutesOf (split_str CHR '':'' ?time) =
      Some (if rest = [] then 0 else digitsValue 10 ms)"
    using rest parseInt_digits [of ms] by (auto simp: parts minutesOf_def)
  show ?thesis
    unfolding s hoursMinutes12_def Let_def isPM clean trimmed hours minutes
    by (simp add: spec_hour24_def)
qed

lemma twelve_hour_part001:
  assumes hs: "hs \<noteq> []" "list_all (isRadixDigit 10) hs"
    and mer: "isMeridiem a b"
    and rest: "rest = [] \<or> rest = CHR '':'' # ms \<and> ms \<noteq> [] \<and> list_all (isRadixDigit 10) ms"
  shows "hoursMinutes_part001 (hs @ rest @ replicate k CHR '' '' @ [a, b]) =
           (Some (spec_hour24 (a = CHR ''p'' \<or> a = CHR ''P'') (digitsValue 10 hs)),
            Some (if rest = [] then 0 else digitsValue 10 ms))"
proof -
  let ?pre = "hs @ rest @ replicate k CHR '' ''"
  let ?s = "hs @ rest @ replicate k CHR '' '' @ [a, b]"
  have s: "?s = ?pre @ [a, b]" by simp
  have rest65: "\<forall>c \<in> set rest. (of_char c :: nat) < 65"
    using rest digits_below_65 [of ms] by auto
  have pre: "\<forall>c \<in> set ?pre. (of_char c :: nat) < 65"
    using digits_below_65 [OF hs(2)] rest65 by auto
  have "hd ?s = hd hs" using hs(1) by simp
  then have t: "trim ?s = ?s"
    using digits_ends(1) [OF hs] meridiem_not_space [OF mer] by (intro trim_keep) simp_all
  have "is12Hour_part001 ?s"
    unfolding is12Hour_part001_def s using isPM_of_marker(2) [OF pre mer] by simp
  then show ?thesis
    unfolding hoursMinutes_part001_def Let_def t
    using hoursMinutes12_ok [OF hs mer rest, of k] by simp
qed

lemma twelve_hour_part000:
  assumes hs: "hs \<noteq> []" "list_all (isRadixDigit 10) hs"
    and mer: "[a, b] = ''AM'' \<or> [a, b] = ''PM'' \<or> [a, b] = ''am'' \<or> [a, b] = ''pm''"
    and rest: "rest = [] \<or> rest = CHR '':'' # ms \<and> ms \<noteq> [] \<and> list_all (isRadixDigit 10) ms"
  shows "hoursMinutes_part000 (hs @ rest @ replicate k CHR '' '' @ [a, b]) =
           (Some (spec_hour24 (a = CHR ''p'' \<or> a = CHR ''P'') (digitsValue 10 hs)),
            Some (if rest = [] then 0 else digitsValue 10 ms))"
proof -
  let ?pre = "hs @ rest @ replicate k CHR '' ''"
  let ?s = "hs @ rest @ replicate k CHR '' '' @ [a, b]"
  have s: "?s = ?pre @ [a, b]" by simp
  have m: "isMeridiem a b" using mer by (auto simp: isMeridiem_def)
  have "hd ?s = hd hs" using hs(1) by simp
  then have t: "trim ?s = ?s"
    using digits_ends(1) [OF hs] meridiem_not_space [OF m] by (intro trim_keep) simp_all
  have "includes_str (?pre @ [a, b]) [a, b]" by (rule includes_append) simp
  then have "is12Hour_part000 ?s"
    unfolding is12Hour_part000_def s using mer by metis
  then show ?thesis
    unfolding hoursMinutes_part000_def Let_def t
    using hoursMinutes12_ok [OF hs m rest, of k] by simp
qed

lemma foldl_digits_nonneg:
  "0 \<le> acc \<Longrightarrow> 0 \<le> foldl (\<lambda>acc c. acc * int R + int (the (digitValue c))) acc Z"
  by (induction Z arbitrary: acc) simp_all

lemma digitsValue_nonneg: "0 \<le> digitsValue R Z"
  by (simp add: digitsValue_def foldl_digits_nonneg)

lemma spec_hour24_range: "1 \<le> h \<Longrightarrow> h \<le> 12 \<Longrightarrow> 0 \<le> spec_hour24 pm h \<and> spec_hour24 pm h \<le> 23"
  by (simp add: spec_hour24_def)

lemma twelve_hour_time_of_day_part001:
  assumes hs: "hs \<noteq> []" "list_all (isRadixDigit 10) hs"
    and mer: "isMeridiem a b"
    and rest: "rest = [] \<or> rest = CHR '':'' # ms \<and> ms \<noteq> [] \<and> list_all (isRadixDigit 10) ms"
    and h: "1 \<le> digitsValue 10 hs" "digitsValue 10 hs \<le> 12"
    and m: "rest \<noteq> [] \<longrightarrow> digitsValue 10 ms \<le> 59"
  shows "getHours (fixedZone tz) (fst (parseTimeToDate_part001 (fixedZone tz) now
             (hs @ rest @ replicate k CHR '' '' @ [a, b]))) =
           spec_hour24 (a = CHR ''p'' \<or> a = CHR ''P'') (digitsValue 10 hs) \<and>
         getMinutes (fixedZone tz) (fst (parseTimeToDate_part001 (fixedZone tz) now
             (hs @ rest @ replicate k CHR '' '' @ [a, b]))) =
           (if rest = [] then 0 else digitsValue 10 ms) \<and>
         getSeconds (fixedZone tz) (fst (parseTimeToDate_part001 (fixedZone tz) now
             (hs @ rest @ replicate k CHR '' '' @ [a, b]))) = 0 \<and>
         getMilliseconds (fixedZone tz) (fst (parseTimeToDate_part001 (fixedZone tz) now
             (hs @ rest @ replicate k CHR '' '' @ [a, b]))) = 0"
proof -
  note r = spec_hour24_range [OF h, of "a = CHR ''p'' \<or> a = CHR ''P''"]
  have m0: "0 \<le> (if rest = [] then 0 else digitsValue 10 ms)"
    by (simp add: digitsValue_nonneg)
  have m1: "(if rest = [] then 0 else digitsValue 10 ms) \<le> 59" using m by simp
  show ?thesis
    by (rule parsed_time_of_day_part001 [OF twelve_hour_part001 [OF hs mer rest]])
      (use r m0 m1 in simp_all)
qed

lemma twelve_hour_time_of_day_part000:
  assumes hs: "hs \<noteq> []" "list_all (isRadixDigit 10) hs"
    and mer: "[a, b] = ''AM'' \<or> [a, b] = ''PM'' \<or> [a, b] = ''am'' \<or> [a, b] = ''pm''"
    and rest: "rest = [] \<or> rest = CHR '':'' # ms \<and> ms \<noteq> [] \<and> list_all (isRadixDigit 10) ms"
    and h: "1 \<le> digitsValue 10 hs" "digitsValue 10 hs \<le> 12"
    and m: "rest \<noteq> [] \<longrightarrow> digitsValue 10 ms \<le> 59"
  shows "getHours (fixedZone tz) (fst (parseTimeToDate_part000 (fixedZone tz) now
             (hs @ rest @ replicate k CHR '' '' @ [a, b]))) =
           spec_hour24 (a = CHR ''p'' \<or> a = CHR ''P'') (digitsValue 10 hs) \<and>
         getMinutes (fixedZone tz) (fst (parseTimeToDate_part000 (fixedZone tz) now
             (hs @ rest @ replicate k CHR '' '' @ [a, b]))) =
           (if rest = [] then 0 else digitsValue 10 ms) \<and>
         getSeconds (fixedZone tz) (fst (parseTimeToDate_part000 (fixedZone tz) now
             (hs @ rest @ replicate k CHR '' '' @ [a, b]))) = 0 \<and>
         getMilliseconds (fixedZone tz) (fst (parseTimeToDate_part000 (fixedZone tz) now
             (hs @ rest @ replicate k CHR '' '' @ [a, b]))) = 0"
proof -
  note r = spec_hour24_range [OF h, of "a = CHR ''p'' \<or> a = CHR ''P''"]
  have m0: "0 \<le> (if rest = [] then 0 else digitsValue 10 ms)"
    by (simp add: digitsValue_nonneg)
  have m1: "(if rest = [] then 0 else digitsValue 10 ms) \<le> 59" using m by simp
  show ?thesis
    by (rule parsed_time_of_day_part000 [OF twelve_hour_part000 [OF hs mer rest]])
      (use r m0 m1 in simp_all)
qed

lemma digits_12: "list_all (isRadixDigit 10) ''12'' \<and> digitsValue 10 ''12'' = 12" by code_simp
lemma digits_05: "list_all (isRadixDigit 10) ''05'' \<and> digitsValue 10 ''05'' = 5" by code_simp

lemma twelve_hour_example:
  "getHours (fixedZone tz) (fst (parseTimeToDate_part001 (fixedZone tz) now ''12:05 aM'')) = 0 \<and>
   getMinutes (fixedZone tz) (fst (parseTimeToDate_part001 (fixedZone tz) now ''12:05 aM'')) = 5"
proof -
  have mer: "isMeridiem CHR ''a'' CHR ''M''" by (simp add: isMeridiem_def)
  have rest: "'':05'' = [] \<or> '':05'' = CHR '':'' # ''05'' \<and> ''05'' \<noteq> [] \<and>
      list_all (isRadixDigit 10) ''05''"
    using digits_05 by simp
  from twelve_hour_time_of_day_part001 [of "''12''" "CHR ''a''" "CHR ''M''" "'':05''" "''05''" tz now 1,
      OF _ _ mer rest]
  show ?thesis using digits_12 digits_05 by (simp add: spec_hour24_def)
qed

end
